theory Spec2Isabelle
  imports Complex_Main
begin

section \<open>Values of the program\<close>

text \<open>
  The module \<open>pipeline/inference/sampler.py\<close> works on dictionaries of tensors. A tensor is
  its shape and its entries in row-major order; arithmetic is that of the real numbers (the
  rounding of floating point is outside this development). A dictionary is the list of its
  items in insertion order. Every exception the code can raise is a value of \<open>error\<close>, and a
  function that can raise returns \<open>error + 'a\<close> with \<open>Inl\<close> for the exception.
\<close>

datatype error =
    TypeError | ValueError | RuntimeError | StopIteration | IndexError | KeyError
  | AttributeError | OSError | ZeroDivisionError

record tensor =
  shape :: "nat list"
  data :: "real list"

type_synonym params = "(string \<times> tensor) list"
type_synonym vec = "real list"
type_synonym mat = "real list list"

text \<open>
  Python does not enforce the annotation \<open>Dict\<close>: \<open>estimate_precision\<close> hands the list
  returned by \<open>randn_params\<close> to \<open>alternating_projection\<close>. The argument to be projected is
  therefore a dictionary or a list of dictionaries.
\<close>

datatype pyobj = Dict params | List "params list"

text \<open>
  The isotropic precision is one number: a 0-dimensional tensor (what \<open>estimate_precision\<close>
  computes) or a Python float (what \<open>estimate_precision\<close> passes to \<open>randn_params\<close>).
\<close>

datatype pyscalar = PyFloat real | Tensor0 real

definition numel :: "tensor \<Rightarrow> nat" where
  "numel t = prod_list (shape t)"

definition dot :: "vec \<Rightarrow> vec \<Rightarrow> real" where
  "dot u v = sum_list (map2 (*) u v)"

definition and_then :: "error + 'a \<Rightarrow> ('a \<Rightarrow> error + 'b) \<Rightarrow> error + 'b" where
  "and_then r f = (case r of Inl e \<Rightarrow> Inl e | Inr a \<Rightarrow> f a)"

text \<open>\<open>d[k]\<close> on a dictionary, and on a list (whose indices must be integers).\<close>

definition getitem :: "params \<Rightarrow> string \<Rightarrow> error + tensor" where
  "getitem d k = (case map_of d k of None \<Rightarrow> Inl KeyError | Some t \<Rightarrow> Inr t)"

definition getitem_obj :: "pyobj \<Rightarrow> string \<Rightarrow> error + tensor" where
  "getitem_obj p k = (case p of Dict d \<Rightarrow> getitem d k | List _ \<Rightarrow> Inl TypeError)"

text \<open>\<open>xs[b]\<close> for an index \<open>b\<close> that is not negative.\<close>

definition list_index :: "'a list \<Rightarrow> nat \<Rightarrow> error + 'a" where
  "list_index xs b = (if b < length xs then Inr (xs ! b) else Inl IndexError)"

text \<open>\<open>p.items()\<close>: a list has no such attribute.\<close>

definition items :: "pyobj \<Rightarrow> error + params" where
  "items p = (case p of Dict d \<Rightarrow> Inr d | List _ \<Rightarrow> Inl AttributeError)"

text \<open>The comprehension \<open>{k: F(k, v) for k, v in d.items()}\<close>, stopping at the first raise.\<close>

fun dict_comp :: "(string \<Rightarrow> tensor \<Rightarrow> error + tensor) \<Rightarrow> params \<Rightarrow> error + params" where
  "dict_comp F [] = Inr []"
| "dict_comp F ((k, v) # kvs) =
     (case F k v of
        Inl e \<Rightarrow> Inl e
      | Inr t \<Rightarrow> (case dict_comp F kvs of Inl e \<Rightarrow> Inl e | Inr r \<Rightarrow> Inr ((k, t) # r)))"

text \<open>
  Elementwise arithmetic of two tensors. Every call that the code reaches is on operands of
  one shape (\<open>jvp\<close> has compared the shapes before, and \<open>randn_like\<close> keeps them); operands
  of different shapes, which torch would broadcast or reject, stop with \<open>RuntimeError\<close>.
\<close>

definition tensor_zip :: "(real \<Rightarrow> real \<Rightarrow> real) \<Rightarrow> tensor \<Rightarrow> tensor \<Rightarrow> error + tensor" where
  "tensor_zip f a b =
     (if shape a = shape b then Inr \<lparr>shape = shape a, data = map2 f (data a) (data b)\<rparr>
      else Inl RuntimeError)"

definition tensor_scale :: "real \<Rightarrow> tensor \<Rightarrow> tensor" where
  "tensor_scale c t = \<lparr>shape = shape t, data = map ((*) c) (data t)\<rparr>"

section \<open>The differentiation transforms of \<open>torch.func\<close>\<close>

text \<open>
  The callable \<open>func(params, x, y)\<close> is a scalar loss (the usage the docstrings name: one
  output per example). The module never reads its value, only its derivatives through
  \<open>jacrev\<close>, \<open>jvp\<close> and \<open>vjp\<close>; it is represented by its partial derivatives: \<open>d ps x y k i\<close>
  is the derivative of \<open>func(ps, x, y)\<close> in entry \<open>i\<close> of parameter \<open>k\<close>.

  The module calls \<open>func\<close> in two ways. \<open>tf.jacrev(func)\<close> and \<open>tf.jvp(fp, (base_params,), \<dots>)\<close>
  hand it the dictionary of parameters. \<open>tf.vjp(fp, (base_params,))\<close> takes its primals as
  separate arguments, so there \<open>func\<close> receives the 1-tuple \<open>(base_params,)\<close> (and the
  pullback's result is unpacked with \<open>[0][0]\<close>). A \<open>func\<close> that indexes its argument as a
  dictionary raises on the tuple; one built on \<open>torch.func.functional_call\<close>, which takes a
  tuple of dictionaries as their union, computes the same as on the dictionary. Hence the
  two fields: the derivatives of \<open>func\<close> called on the dictionary, and what \<open>func\<close> does on
  the 1-tuple, an exception or the derivatives in the entries of its dictionary.

  A batch is the list of its examples; \<open>vmap\<close> over axis 0 of \<open>xb\<close> and \<open>yb\<close> raises
  \<open>ValueError\<close> when their lengths differ and \<open>IndexError\<close> on a batch of no example.
\<close>

type_synonym ('x, 'y) deriv = "params \<Rightarrow> 'x \<Rightarrow> 'y \<Rightarrow> string \<Rightarrow> nat \<Rightarrow> real"

record ('x, 'y) func =
  on_dict :: "('x, 'y) deriv"
  on_tuple :: "error + ('x, 'y) deriv"

definition accepts_tuple :: "('x, 'y) func \<Rightarrow> bool" where
  "accepts_tuple func \<longleftrightarrow> on_tuple func = Inr (on_dict func)"

text \<open>
  Entry \<open>k\<close> of \<open>tf.jacrev(func)(params, x, y)\<close>: the gradient in the parameter \<open>k\<close>, a
  tensor of the shape of that parameter \<open>t\<close>.
\<close>

definition grad_tensor :: "('x, 'y) deriv \<Rightarrow> params \<Rightarrow> 'x \<Rightarrow> 'y \<Rightarrow> string \<Rightarrow> tensor \<Rightarrow> tensor" where
  "grad_tensor d ps x y k t = \<lparr>shape = shape t, data = map (d ps x y k) [0..<numel t]\<rparr>"

text \<open>
  \<open>tf.vmap(tf.jacrev(func), (None, 0, 0))(params, xb, yb)\<close>: per parameter, the gradient
  tensors of all examples (the leading batch axis is the list). \<open>jacrev\<close> raises
  \<open>ValueError\<close> when there is no parameter to differentiate in.
\<close>

definition vmap_jacrev ::
  "('x, 'y) func \<Rightarrow> params \<Rightarrow> 'x list \<Rightarrow> 'y list \<Rightarrow> error + (string \<times> tensor list) list" where
  "vmap_jacrev func ps xb yb =
     (if length xb \<noteq> length yb then Inl ValueError
      else if xb = [] then Inl IndexError
      else if ps = [] then Inl ValueError
      else Inr (map (\<lambda>(k, t). (k, map (\<lambda>(x, y). grad_tensor (on_dict func) ps x y k t) (zip xb yb)))
                  ps))"

text \<open>
  \<open>tf.jvp(fp, (base_params,), (tangent,))\<close> for \<open>fp = vmap(func)(\<cdot>, xb, yb)\<close>: the tangent
  must have the structure of the primal (same keys, same shapes) and there must be a
  tensor in the primal; then \<open>fp\<close> runs, and entry \<open>b\<close> of the result is the directional
  derivative of example \<open>b\<close>.
\<close>

definition jvp ::
  "('x, 'y) func \<Rightarrow> params \<Rightarrow> pyobj \<Rightarrow> 'x list \<Rightarrow> 'y list \<Rightarrow> error + vec" where
  "jvp func base tangent xb yb =
     (case tangent of
        List _ \<Rightarrow> Inl RuntimeError
      | Dict v \<Rightarrow>
          if map fst v \<noteq> map fst base then Inl RuntimeError
          else if base = [] then Inl RuntimeError
          else if map (shape \<circ> snd) v \<noteq> map (shape \<circ> snd) base then Inl RuntimeError
          else if length xb \<noteq> length yb then Inl ValueError
          else if xb = [] then Inl IndexError
          else Inr (map (\<lambda>(x, y).
                 sum_list (map2 (\<lambda>(k, t) (k', vt).
                              dot (data (grad_tensor (on_dict func) base x y k t)) (data vt))
                             base v))
               (zip xb yb)))"

text \<open>
  \<open>tf.vjp(fp, (base_params,))\<close> evaluates \<open>fp\<close>, and so \<open>func\<close>, on the 1-tuple (after the
  checks of \<open>vmap\<close> on the batch) and returns the pullback; it raises when there is no
  parameter. The pullback takes a cotangent \<open>u\<close> of the shape of the output (one entry per
  example) and returns, per parameter, the tensor whose entry \<open>i\<close> is the sum over the
  examples \<open>b\<close> of \<open>u\<^sub>b\<close> times the derivative of example \<open>b\<close> in entry \<open>i\<close>.
\<close>

definition vjp ::
  "('x, 'y) func \<Rightarrow> params \<Rightarrow> 'x list \<Rightarrow> 'y list \<Rightarrow> vec \<Rightarrow> error + params" where
  "vjp func base xb yb u =
     (if length xb \<noteq> length yb then Inl ValueError
      else if xb = [] then Inl IndexError
      else (case on_tuple func of
              Inl e \<Rightarrow> Inl e
            | Inr d \<Rightarrow>
                if base = [] then Inl RuntimeError
                else if length u \<noteq> length xb then Inl RuntimeError
                else Inr (map (\<lambda>(k, t).
                       (k, \<lparr>shape = shape t,
                            data = map (\<lambda>i. sum_list (map2 (\<lambda>ub (x, y). ub * d base x y k i) u
                                                       (zip xb yb)))
                                     [0..<numel t]\<rparr>))
                     base)))"

section \<open>\<open>batched_jjt\<close>\<close>

text \<open>\<open>torch.einsum('NP,MP->NM', a, b)\<close>.\<close>

definition einsum_NP_MP_NM :: "mat \<Rightarrow> mat \<Rightarrow> mat" where
  "einsum_NP_MP_NM a b = map (\<lambda>n. map (\<lambda>m. dot n m) b) a"

text \<open>
  \<open>j.flatten(1)\<close> on the batched gradient of one parameter: axis 1 does not exist when the
  parameter is 0-dimensional (the batched gradient has the batch axis only), and the call
  raises \<open>IndexError\<close>. The comprehension \<open>[j.flatten(1) for j in jac]\<close> stops at the first
  raise.
\<close>

definition flatten1 :: "tensor list \<Rightarrow> error + mat" where
  "flatten1 j = (if list_ex (\<lambda>t. shape t = []) j then Inl IndexError else Inr (map data j))"

fun flatten_all :: "tensor list list \<Rightarrow> error + mat list" where
  "flatten_all [] = Inr []"
| "flatten_all (j # js) =
     (case flatten1 j of
        Inl e \<Rightarrow> Inl e
      | Inr m \<Rightarrow> (case flatten_all js of Inl e \<Rightarrow> Inl e | Inr ms \<Rightarrow> Inr (m # ms)))"

text \<open>\<open>torch.stack\<close> refuses an empty list of tensors.\<close>

definition stack :: "mat list \<Rightarrow> error + mat list" where
  "stack ms = (if ms = [] then Inl RuntimeError else Inr ms)"

definition mat_add :: "mat \<Rightarrow> mat \<Rightarrow> mat" where
  "mat_add a b = map2 (map2 (+)) a b"

text \<open>\<open>.sum(0)\<close> of a stack of at least one matrix.\<close>

fun sum0 :: "mat list \<Rightarrow> mat" where
  "sum0 [] = []"
| "sum0 [m] = m"
| "sum0 (m # ms) = mat_add m (sum0 ms)"

definition batched_jjt ::
  "('x, 'y) func \<Rightarrow> params \<Rightarrow> 'x list \<Rightarrow> 'y list \<Rightarrow> error + mat" where
  "batched_jjt func ps xb yb =
     (case vmap_jacrev func ps xb yb of
        Inl e \<Rightarrow> Inl e
      | Inr jac \<Rightarrow>
          (case flatten_all (map snd jac) of
             Inl e \<Rightarrow> Inl e
           | Inr jac \<Rightarrow>
               (case stack (map (\<lambda>j. einsum_NP_MP_NM j j) jac) of
                  Inl e \<Rightarrow> Inl e
                | Inr result \<Rightarrow> Inr (sum0 result))))"

section \<open>\<open>precompute_inv_jjt\<close>\<close>

text \<open>
  The file system maps a path to the pickled cache stored there; \<open>writable\<close> says whether
  \<open>open(path, 'wb')\<close> succeeds. The empty path names no file: \<open>os.path.exists('')\<close> is
  false and \<open>open('', 'wb')\<close> fails. \<open>os.path.exists(None)\<close> raises \<open>TypeError\<close>.
  \<open>torch.linalg.pinv\<close> is a parameter \<open>pinv\<close>; moving a tensor between devices
  (\<open>.to(device)\<close>, \<open>.cpu()\<close>) does not change its value. Reading the device of the first
  parameter, \<open>next(iter(base_params.items()))\<close>, raises \<open>StopIteration\<close> on an empty
  dictionary.
\<close>

record filesystem =
  files :: "string \<rightharpoonup> mat list"
  writable :: "string \<Rightarrow> bool"

definition path_exists :: "filesystem \<Rightarrow> string \<Rightarrow> bool" where
  "path_exists fs path \<longleftrightarrow> path \<noteq> [] \<and> files fs path \<noteq> None"

definition pickle_load :: "string \<Rightarrow> filesystem \<Rightarrow> error + mat list" where
  "pickle_load path fs = (case files fs path of None \<Rightarrow> Inl OSError | Some c \<Rightarrow> Inr c)"

definition pickle_dump :: "string \<Rightarrow> mat list \<Rightarrow> filesystem \<Rightarrow> (error + unit) \<times> filesystem" where
  "pickle_dump path c fs =
     (if path = [] \<or> \<not> writable fs path then (Inl OSError, fs)
      else (Inr (), fs\<lparr>files := (files fs)(path \<mapsto> c)\<rparr>))"

fun inv_jjt_loop ::
  "(mat \<Rightarrow> mat) \<Rightarrow> ('x, 'y) func \<Rightarrow> params \<Rightarrow> ('x list \<times> 'y list) list \<Rightarrow> mat list
     \<Rightarrow> error + mat list" where
  "inv_jjt_loop pinv func base [] inv_jjt_cache = Inr inv_jjt_cache"
| "inv_jjt_loop pinv func base ((xb, yb) # rest) inv_jjt_cache =
     (case batched_jjt func base xb yb of
        Inl e \<Rightarrow> Inl e
      | Inr m \<Rightarrow> inv_jjt_loop pinv func base rest (inv_jjt_cache @ [pinv m]))"

definition precompute_inv_jjt ::
  "(mat \<Rightarrow> mat) \<Rightarrow> ('x, 'y) func \<Rightarrow> params \<Rightarrow> ('x list \<times> 'y list) list \<Rightarrow> string option
     \<Rightarrow> filesystem \<Rightarrow> (error + mat list) \<times> filesystem" where
  "precompute_inv_jjt pinv func base train_loader save_path fs =
     (case save_path of
        None \<Rightarrow> (Inl TypeError, fs)
      | Some path \<Rightarrow>
          if path_exists fs path then (pickle_load path fs, fs)
          else if base = [] then (Inl StopIteration, fs)
          else (case inv_jjt_loop pinv func base train_loader [] of
                  Inl e \<Rightarrow> (Inl e, fs)
                | Inr inv_jjt_cache \<Rightarrow>
                    (case pickle_dump path inv_jjt_cache fs of
                       (Inl e, fs') \<Rightarrow> (Inl e, fs')
                     | (Inr u, fs') \<Rightarrow> (Inr inv_jjt_cache, fs'))))"

section \<open>\<open>batched_proj\<close>, \<open>apply_proj_cycle\<close>, \<open>alternating_projection\<close>\<close>

text \<open>\<open>torch.matmul\<close> of a matrix and a 1-dimensional tensor.\<close>

definition matmul :: "mat \<Rightarrow> vec \<Rightarrow> error + vec" where
  "matmul a v =
     (if list_all (\<lambda>r. length r = length v) a then Inr (map (\<lambda>r. dot r v) a)
      else Inl RuntimeError)"

definition batched_proj ::
  "('x, 'y) func \<Rightarrow> params \<Rightarrow> pyobj \<Rightarrow> 'x list \<Rightarrow> 'y list \<Rightarrow> mat \<Rightarrow> error + pyobj" where
  "batched_proj func base_params params_to_proj xb yb inv_jjt =
     (case jvp func base_params params_to_proj xb yb of
        Inl e \<Rightarrow> Inl e
      | Inr jvp_val \<Rightarrow>
     (case matmul inv_jjt jvp_val of
        Inl e \<Rightarrow> Inl e
      | Inr inv_jjt_jv \<Rightarrow>
     (case vjp func base_params xb yb inv_jjt_jv of
        Inl e \<Rightarrow> Inl e
      | Inr vjp_val \<Rightarrow>
     (case items params_to_proj of
        Inl e \<Rightarrow> Inl e
      | Inr kvs \<Rightarrow>
     (case dict_comp (\<lambda>k v. and_then (getitem vjp_val k) (tensor_zip (-) v)) kvs of
        Inl e \<Rightarrow> Inl e
      | Inr r \<Rightarrow> Inr (Dict r))))))"

text \<open>
  The loop \<open>for b, data in enumerate(dataloader)\<close>: \<open>inv_jjt_cache[b]\<close> is evaluated before
  the call and raises \<open>IndexError\<close> past the end of the cache.
\<close>

fun proj_loop ::
  "('x, 'y) func \<Rightarrow> params \<Rightarrow> mat list \<Rightarrow> nat \<Rightarrow> ('x list \<times> 'y list) list \<Rightarrow> pyobj
     \<Rightarrow> error + pyobj" where
  "proj_loop func base inv_jjt_cache b [] proj_params = Inr proj_params"
| "proj_loop func base inv_jjt_cache b ((xb, yb) # rest) proj_params =
     (case list_index inv_jjt_cache b of
        Inl e \<Rightarrow> Inl e
      | Inr inv_jjt \<Rightarrow>
          (case batched_proj func base proj_params xb yb inv_jjt of
             Inl e \<Rightarrow> Inl e
           | Inr p \<Rightarrow> proj_loop func base inv_jjt_cache (Suc b) rest p))"

definition apply_proj_cycle ::
  "('x, 'y) func \<Rightarrow> params \<Rightarrow> pyobj \<Rightarrow> ('x list \<times> 'y list) list \<Rightarrow> mat list
     \<Rightarrow> error + pyobj" where
  "apply_proj_cycle func base_params ps dataloader inv_jjt_cache =
     (if base_params = [] then Inl StopIteration
      else proj_loop func base_params inv_jjt_cache 0 dataloader ps)"

text \<open>The loop \<open>for _ in range(n_cycle)\<close>.\<close>

fun cycle_loop ::
  "('x, 'y) func \<Rightarrow> params \<Rightarrow> ('x list \<times> 'y list) list \<Rightarrow> mat list \<Rightarrow> nat \<Rightarrow> pyobj
     \<Rightarrow> error + pyobj" where
  "cycle_loop func base dataloader inv_jjt_cache 0 p = Inr p"
| "cycle_loop func base dataloader inv_jjt_cache (Suc n) p =
     (case apply_proj_cycle func base p dataloader inv_jjt_cache of
        Inl e \<Rightarrow> Inl e
      | Inr p' \<Rightarrow> cycle_loop func base dataloader inv_jjt_cache n p')"

definition alternating_projection ::
  "('x, 'y) func \<Rightarrow> params \<Rightarrow> int \<Rightarrow> pyobj \<Rightarrow> ('x list \<times> 'y list) list \<Rightarrow> mat list
     \<Rightarrow> error + pyobj" where
  "alternating_projection func base_params n_cycle param_to_proj dataloader inv_jjt_cache =
     cycle_loop func base_params dataloader inv_jjt_cache (nat n_cycle) param_to_proj"

section \<open>\<open>randn_params\<close>\<close>

text \<open>
  The generator of random numbers is the sequence of standard-normal draws still to come;
  \<open>torch.randn_like(v)\<close> takes as many as \<open>v\<close> has entries. \<open>torch.sqrt\<close> takes a tensor
  and raises \<open>TypeError\<close> on a Python number. (For a precision that is not positive the
  floating-point result is \<open>inf\<close> or \<open>nan\<close>; the reals have neither, and no property below
  depends on the value of the factor.)
\<close>

type_synonym rng = "nat \<Rightarrow> real"

definition randn_like :: "tensor \<Rightarrow> rng \<Rightarrow> tensor \<times> rng" where
  "randn_like v g = (\<lparr>shape = shape v, data = map g [0..<numel v]\<rparr>, \<lambda>i. g (i + numel v))"

definition torch_sqrt :: "pyscalar \<Rightarrow> error + real" where
  "torch_sqrt p = (case p of PyFloat _ \<Rightarrow> Inl TypeError | Tensor0 r \<Rightarrow> Inr (sqrt r))"

text \<open>The comprehension \<open>{k: f*torch.randn_like(v) for k, v in param_template.items()}\<close>.\<close>

fun randn_dict :: "real \<Rightarrow> params \<Rightarrow> rng \<Rightarrow> params \<times> rng" where
  "randn_dict f [] g = ([], g)"
| "randn_dict f ((k, v) # kvs) g =
     (case randn_like v g of
        (z, g1) \<Rightarrow> (case randn_dict f kvs g1 of (rest, g2) \<Rightarrow> ((k, tensor_scale f z) # rest, g2)))"

text \<open>The loop \<open>for _ in range(n_samples)\<close>, appending to \<open>samples\<close>.\<close>

fun randn_loop :: "real \<Rightarrow> params \<Rightarrow> nat \<Rightarrow> params list \<Rightarrow> rng \<Rightarrow> params list \<times> rng" where
  "randn_loop f param_template 0 samples g = (samples, g)"
| "randn_loop f param_template (Suc n) samples g =
     (case randn_dict f param_template g of
        (s, g1) \<Rightarrow> randn_loop f param_template n (samples @ [s]) g1)"

definition randn_params ::
  "params \<Rightarrow> pyscalar \<Rightarrow> int \<Rightarrow> rng \<Rightarrow> (error + params list) \<times> rng" where
  "randn_params param_template precision n_samples g =
     (case torch_sqrt precision of
        Inl e \<Rightarrow> (Inl e, g)
      | Inr r \<Rightarrow>
          (case randn_loop (1 / r) param_template (nat n_samples) [] g of
             (samples, g') \<Rightarrow> (Inr samples, g')))"

section \<open>\<open>lpp_sampler\<close>\<close>

text \<open>The loop over \<open>param_samples\<close>, appending to \<open>proj_samples\<close>.\<close>

fun sampler_loop ::
  "('x, 'y) func \<Rightarrow> params \<Rightarrow> int \<Rightarrow> ('x list \<times> 'y list) list \<Rightarrow> mat list \<Rightarrow> params list
     \<Rightarrow> params list \<Rightarrow> error + params list" where
  "sampler_loop loss_fn base n_cycle dataloader inv_jjt_cache [] proj_samples = Inr proj_samples"
| "sampler_loop loss_fn base n_cycle dataloader inv_jjt_cache (p_samp # rest) proj_samples =
     (case alternating_projection loss_fn base n_cycle (Dict p_samp) dataloader inv_jjt_cache of
        Inl e \<Rightarrow> Inl e
      | Inr p \<Rightarrow>
          (case dict_comp (\<lambda>k v. and_then (getitem_obj p k) (tensor_zip (+) v)) base of
             Inl e \<Rightarrow> Inl e
           | Inr s \<Rightarrow>
               sampler_loop loss_fn base n_cycle dataloader inv_jjt_cache rest (proj_samples @ [s])))"

definition lpp_sampler ::
  "(mat \<Rightarrow> mat) \<Rightarrow> int \<Rightarrow> int \<Rightarrow> ('x, 'y) func \<Rightarrow> params \<Rightarrow> pyscalar
     \<Rightarrow> ('x list \<times> 'y list) list \<Rightarrow> string option \<Rightarrow> filesystem \<Rightarrow> rng
     \<Rightarrow> (error + params list) \<times> filesystem \<times> rng" where
  "lpp_sampler pinv n_samples n_cycle loss_fn base_params iso_precision dataloader
       inv_jjt_cache_path fs g =
     (case precompute_inv_jjt pinv loss_fn base_params dataloader inv_jjt_cache_path fs of
        (Inl e, fs') \<Rightarrow> (Inl e, fs', g)
      | (Inr inv_jjt_cache, fs') \<Rightarrow>
          (case randn_params base_params iso_precision n_samples g of
             (Inl e, g') \<Rightarrow> (Inl e, fs', g')
           | (Inr param_samples, g') \<Rightarrow>
               (sampler_loop loss_fn base_params n_cycle dataloader inv_jjt_cache param_samples [],
                fs', g')))"

section \<open>\<open>estimate_precision\<close>\<close>

text \<open>\<open>sum((v**2).sum() for _, v in base_params.items())\<close>.\<close>

definition sum_squares :: "params \<Rightarrow> real" where
  "sum_squares ps = sum_list (map (\<lambda>(k, v). sum_list (map (\<lambda>x. x ^ 2) (data v))) ps)"

text \<open>\<open>sum(v.numel() for _, v in base_params.items())\<close>.\<close>

definition n_params :: "params \<Rightarrow> nat" where
  "n_params ps = sum_list (map (numel \<circ> snd) ps)"

text \<open>\<open>sum((v*param_proj[k]).sum() for k, v in kvs)\<close>.\<close>

fun inner_products :: "pyobj \<Rightarrow> params \<Rightarrow> error + real" where
  "inner_products param_proj [] = Inr 0"
| "inner_products param_proj ((k, v) # kvs) =
     (case and_then (getitem_obj param_proj k) (tensor_zip (*) v) of
        Inl e \<Rightarrow> Inl e
      | Inr t \<Rightarrow>
          (case inner_products param_proj kvs of
             Inl e \<Rightarrow> Inl e
           | Inr s \<Rightarrow> Inr (sum_list (data t) + s)))"

text \<open>
  The loop \<open>for _ in range(n_samples)\<close> of the Hutchinson estimate. The code passes the
  float \<open>1.0\<close> as precision, and passes on the list that \<open>randn_params\<close> returns.
\<close>

fun trace_loop ::
  "('x, 'y) func \<Rightarrow> params \<Rightarrow> ('x list \<times> 'y list) list \<Rightarrow> int \<Rightarrow> mat list \<Rightarrow> nat \<Rightarrow> real
     \<Rightarrow> rng \<Rightarrow> (error + real) \<times> rng" where
  "trace_loop func base dataloader n_cycle inv_jjt_cache 0 trace_approx g = (Inr trace_approx, g)"
| "trace_loop func base dataloader n_cycle inv_jjt_cache (Suc n) trace_approx g =
     (case randn_params base (PyFloat 1.0) 1 g of
        (Inl e, g') \<Rightarrow> (Inl e, g')
      | (Inr test_params, g') \<Rightarrow>
          (case alternating_projection func base n_cycle (List test_params) dataloader
                  inv_jjt_cache of
             Inl e \<Rightarrow> (Inl e, g')
           | Inr param_proj \<Rightarrow>
               (case items (List test_params) of
                  Inl e \<Rightarrow> (Inl e, g')
                | Inr kvs \<Rightarrow>
                    (case inner_products param_proj kvs of
                       Inl e \<Rightarrow> (Inl e, g')
                     | Inr s \<Rightarrow>
                         trace_loop func base dataloader n_cycle inv_jjt_cache n
                           (trace_approx + s) g'))))"

text \<open>
  Over an empty \<open>base_params\<close> the first \<open>sum\<close> is the integer 0, which \<open>torch.sqrt\<close>
  refuses. \<open>trace_approx / n_samples\<close> divides a Python integer by zero when
  \<open>n_samples = 0\<close>.
\<close>

definition estimate_precision ::
  "(mat \<Rightarrow> mat) \<Rightarrow> ('x, 'y) func \<Rightarrow> params \<Rightarrow> ('x list \<times> 'y list) list \<Rightarrow> int \<Rightarrow> int
     \<Rightarrow> string option \<Rightarrow> filesystem \<Rightarrow> rng \<Rightarrow> (error + real) \<times> filesystem \<times> rng" where
  "estimate_precision pinv func base_params dataloader n_samples n_cycle inv_jjt_cache_path fs g =
     (if base_params = [] then (Inl TypeError, fs, g)
      else
        (let norm_param = sqrt (sum_squares base_params);
             n = n_params base_params
         in case precompute_inv_jjt pinv func base_params dataloader inv_jjt_cache_path fs of
              (Inl e, fs') \<Rightarrow> (Inl e, fs', g)
            | (Inr inv_jjt_cache, fs') \<Rightarrow>
                (case trace_loop func base_params dataloader n_cycle inv_jjt_cache
                        (nat n_samples) 0 g of
                   (Inl e, g') \<Rightarrow> (Inl e, fs', g')
                 | (Inr trace_approx, g') \<Rightarrow>
                     if n_samples = 0 then (Inl ZeroDivisionError, fs', g')
                     else (Inr (norm_param / (real n - trace_approx / real_of_int n_samples)),
                           fs', g'))))"

section \<open>Stacked Jacobian and flat vectors\<close>

text \<open>
  The quantities the specification speaks of: the parameters as one flat vector, the
  Jacobian of the batched function (from its partial derivatives \<open>d\<close>) as one matrix with a
  row per example and a column per parameter entry, its Gram matrix, and the products with
  a matrix and with its transpose.
\<close>

definition flatten_params :: "params \<Rightarrow> vec" where
  "flatten_params ps = concat (map (data \<circ> snd) ps)"

definition jacobian :: "('x, 'y) deriv \<Rightarrow> params \<Rightarrow> 'x list \<Rightarrow> 'y list \<Rightarrow> mat" where
  "jacobian d ps xb yb =
     map (\<lambda>(x, y). concat (map (\<lambda>(k, t). map (d ps x y k) [0..<numel t]) ps)) (zip xb yb)"

definition gram :: "mat \<Rightarrow> mat" where
  "gram J = map (\<lambda>r. map (\<lambda>s. dot r s) J) J"

definition mat_vec :: "mat \<Rightarrow> vec \<Rightarrow> vec" where
  "mat_vec A v = map (\<lambda>r. dot r v) A"

text \<open>The transpose of a matrix with \<open>n\<close> columns.\<close>

definition transpose_n :: "nat \<Rightarrow> mat \<Rightarrow> mat" where
  "transpose_n n A = map (\<lambda>j. map (\<lambda>r. r ! j) A) [0..<n]"

definition jac_block ::
  "('x, 'y) deriv \<Rightarrow> params \<Rightarrow> 'x list \<Rightarrow> 'y list \<Rightarrow> string \<times> tensor \<Rightarrow> mat" where
  "jac_block d ps xb yb kt =
     map (\<lambda>(x, y). map (d ps x y (fst kt)) [0..<numel (snd kt)]) (zip xb yb)"

definition vec_sub :: "vec \<Rightarrow> vec \<Rightarrow> vec" where
  "vec_sub u v = map2 (-) u v"



text \<open>The parameter set with the names and shapes of \<open>ps\<close> whose flat vector is \<open>v\<close>.\<close>

fun unflatten :: "params \<Rightarrow> vec \<Rightarrow> params" where
  "unflatten [] v = []"
| "unflatten ((k, t) # ps) v =
     (k, \<lparr>shape = shape t, data = take (numel t) v\<rparr>) # unflatten ps (drop (numel t) v)"

text \<open>Sum and scalar multiple of parameter sets, entry by entry.\<close>

definition params_add :: "params \<Rightarrow> params \<Rightarrow> params" where
  "params_add p q =
     map2 (\<lambda>(k, t) (k', t'). (k, \<lparr>shape = shape t, data = map2 (+) (data t) (data t')\<rparr>)) p q"






definition wf_params :: "params \<Rightarrow> bool" where
  "wf_params ps \<longleftrightarrow>
     distinct (map fst ps) \<and> list_all (\<lambda>kt. length (data (snd kt)) = numel (snd kt)) ps"

definition same_structure :: "params \<Rightarrow> params \<Rightarrow> bool" where
  "same_structure p q \<longleftrightarrow> map fst p = map fst q \<and> map (shape \<circ> snd) p = map (shape \<circ> snd) q"

definition square :: "nat \<Rightarrow> mat \<Rightarrow> bool" where
  "square n A \<longleftrightarrow> length A = n \<and> list_all (\<lambda>r. length r = n) A"

text \<open>
  A cache fits a sequence of batches when it has an entry for every batch and entry \<open>b\<close> is
  a \<open>B \<times> B\<close> matrix for the \<open>B \<ge> 1\<close> examples of batch \<open>b\<close>.
\<close>

definition cache_fits :: "('x list \<times> 'y list) list \<Rightarrow> mat list \<Rightarrow> bool" where
  "cache_fits dl cache \<longleftrightarrow>
     length dl \<le> length cache
     \<and> list_all (\<lambda>((xb, yb), inv_jjt).
           xb \<noteq> [] \<and> length xb = length yb \<and> square (length xb) inv_jjt)
         (zip dl cache)"

section \<open>Example inputs\<close>

text \<open>
  A loss with gradient \<open>(x, y)\<close> in the parameter \<open>w\<close> and \<open>1\<close> in the parameter \<open>b\<close> (the
  linear model \<open>w\<^sub>0 x + w\<^sub>1 y + b\<close>) that takes the 1-tuple as it takes the dictionary, base
  parameters, and two candidates, the second in the null space of the Jacobian of the batch
  \<open>([1], [2])\<close>.
\<close>

definition ex_grad :: "(real, real) deriv" where
  "ex_grad ps x y k i = (if k = ''w'' then (if i = 0 then x else y) else 1)"

definition ex_func :: "(real, real) func" where
  "ex_func = \<lparr>on_dict = ex_grad, on_tuple = Inr ex_grad\<rparr>"

definition ex_base :: params where
  "ex_base = [(''w'', \<lparr>shape = [2], data = [1, 2]\<rparr>), (''b'', \<lparr>shape = [1], data = [0]\<rparr>)]"

definition ex_cand :: params where
  "ex_cand = [(''w'', \<lparr>shape = [2], data = [3, 4]\<rparr>), (''b'', \<lparr>shape = [1], data = [1]\<rparr>)]"


text \<open>
  The projection of the first candidate on the null space of that Jacobian, the
  pseudo-inverse of a \<open>1 \<times> 1\<close> matrix (applied entry by entry), and a file system with no
  file where every path can be written.
\<close>

definition ex_proj :: params where
  "ex_proj = [(''w'', \<lparr>shape = [2], data = [1, 0]\<rparr>), (''b'', \<lparr>shape = [1], data = [-1]\<rparr>)]"

definition ex_pinv :: "mat \<Rightarrow> mat" where
  "ex_pinv m = map (map (\<lambda>x. if x = 0 then 0 else 1 / x)) m"

definition ex_fs :: filesystem where
  "ex_fs = \<lparr>files = Map.empty, writable = (\<lambda>path. True)\<rparr>"

text \<open>A sequence of draws, and a file system that holds a cache for the batch \<open>([1], [2])\<close>.\<close>

definition ex_rng :: rng where
  "ex_rng i = real i"

definition ex_fs_cached :: filesystem where
  "ex_fs_cached = \<lparr>files = [''c.pkl'' \<mapsto> [[[1 / 6]]]], writable = (\<lambda>path. True)\<rparr>"

section \<open>Properties\<close>

subsection \<open>Forward and reverse derivatives as products with the Jacobian\<close>

lemma dot_append:
  "length u = length v \<Longrightarrow> dot (u @ u') (v @ v') = dot u v + dot u' v'"
  by (simp add: dot_def)

lemma map2_same: "map2 f (map g xs) (map h xs) = map (\<lambda>x. f (g x) (h x)) xs"
  by (induction xs) auto

lemma gram_blocks:
  assumes len: "\<And>e e' kt. length (R e kt) = length (R e' kt)"
  shows "qs \<noteq> [] \<Longrightarrow>
   sum0 (map (\<lambda>kt. gram (map (\<lambda>e. R e kt) E)) qs)
     = gram (map (\<lambda>e. concat (map (R e) qs)) E)"
proof (induction qs rule: list_nonempty_induct)
  case (single q)
  then show ?case by (simp add: gram_def)
next
  case (cons q qs)
  have "sum0 (map (\<lambda>kt. gram (map (\<lambda>e. R e kt) E)) (q # qs))
      = mat_add (gram (map (\<lambda>e. R e q) E)) (sum0 (map (\<lambda>kt. gram (map (\<lambda>e. R e kt) E)) qs))"
    using cons.hyps by (cases qs) simp_all
  also have "\<dots> = mat_add (gram (map (\<lambda>e. R e q) E)) (gram (map (\<lambda>e. concat (map (R e) qs)) E))"
    by (simp add: cons.IH)
  also have "\<dots> = gram (map (\<lambda>e. concat (map (R e) (q # qs))) E)"
    by (simp add: gram_def mat_add_def map2_same comp_def dot_append [OF len])
  finally show ?case .
qed

lemma square_gram: "square (length J) (gram J)"
  by (simp add: square_def gram_def list_all_iff)

lemma jvp_row:
  assumes "map fst v = map fst base" "map (shape \<circ> snd) v = map (shape \<circ> snd) base"
    and "list_all (\<lambda>kt. length (data (snd kt)) = numel (snd kt)) v"
  shows "(\<Sum>p\<leftarrow>zip base v. dot (data (grad_tensor func ps x y (fst (fst p)) (snd (fst p)))) (data (snd (snd p))))
       = dot (concat (map (\<lambda>p. map (func ps x y (fst p)) [0..<numel (snd p)]) base)) (concat (map (data \<circ> snd) v))"
  using assms
proof (induction base arbitrary: v)
  case Nil
  then show ?case by (simp add: dot_def)
next
  case (Cons a base)
  then obtain b v' where v: "v = b # v'" by (cases v) auto
  have "shape (snd b) = shape (snd a)" using Cons.prems v by simp
  then have len: "length (data (snd b)) = numel (snd a)"
    using Cons.prems(3) v by (simp add: numel_def)
  show ?case using Cons v len
    by (simp add: case_prod_unfold dot_append grad_tensor_def)
qed

lemma jvp_flat:
  assumes "wf_params c" "same_structure c base" "length xb = length yb"
    and "base \<noteq> []" and "xb \<noteq> []"
  shows "jvp func base (Dict c) xb yb
       = Inr (mat_vec (jacobian (on_dict func) base xb yb) (flatten_params c))"
  using assms
  by (simp add: jvp_def same_structure_def wf_params_def mat_vec_def jacobian_def flatten_params_def
      jvp_row case_prod_unfold)

lemma dot_map_left: "dot (map h E) u = (\<Sum>p\<leftarrow>zip u E. fst p * h (snd p))"
proof (induction E arbitrary: u)
  case Nil
  then show ?case by (simp add: dot_def)
next
  case (Cons e E)
  then show ?case by (cases u) (simp_all add: dot_def)
qed

lemma concat_blocks_nth:
  fixes Z :: "(real \<times> 'e) list" and g :: "'e \<Rightarrow> 'k \<Rightarrow> nat \<Rightarrow> real" and ln :: "'k \<Rightarrow> nat"
  shows "concat (map (\<lambda>kt. map (\<lambda>i. \<Sum>p\<leftarrow>Z. fst p * g (snd p) kt i) [0..<ln kt]) qs)
   = map (\<lambda>j. \<Sum>p\<leftarrow>Z. fst p * (concat (map (\<lambda>kt. map (g (snd p) kt) [0..<ln kt]) qs) ! j))
       [0..<sum_list (map ln qs)]"
proof (induction qs)
  case Nil
  then show ?case by simp
next
  case (Cons q qs)
  have split: "[0..<ln q + sum_list (map ln qs)] = [0..<ln q] @ map (\<lambda>i. i + ln q) [0..<sum_list (map ln qs)]"
    using upt_add_eq_append [of 0 "ln q" "sum_list (map ln qs)"]
    by (simp only: map_add_upt add.commute [of "sum_list (map ln qs)" "ln q"] le0)
  have a: "map (\<lambda>j. \<Sum>p\<leftarrow>Z. fst p * ((map (g (snd p) q) [0..<ln q] @ concat (map (\<lambda>kt. map (g (snd p) kt) [0..<ln kt]) qs)) ! j)) [0..<ln q]
         = map (\<lambda>i. \<Sum>p\<leftarrow>Z. fst p * g (snd p) q i) [0..<ln q]"
    by (rule map_cong [OF refl]) (simp add: nth_append)
  have b: "map (\<lambda>j. \<Sum>p\<leftarrow>Z. fst p * ((map (g (snd p) q) [0..<ln q] @ concat (map (\<lambda>kt. map (g (snd p) kt) [0..<ln kt]) qs)) ! (j + ln q))) [0..<sum_list (map ln qs)]
         = map (\<lambda>j. \<Sum>p\<leftarrow>Z. fst p * (concat (map (\<lambda>kt. map (g (snd p) kt) [0..<ln kt]) qs) ! j)) [0..<sum_list (map ln qs)]"
    by (simp add: nth_append)
  show ?case
    by (simp add: split a b comp_def Cons.IH)
qed

lemma vjp_flat:
  assumes "length xb = length yb" "length u = length xb"
    and "base \<noteq> []" and "xb \<noteq> []" and "accepts_tuple func"
  shows "\<exists>G. vjp func base xb yb u = Inr G \<and> same_structure G base \<and> wf_params G = distinct (map fst base)
      \<and> flatten_params G = mat_vec (transpose_n (n_params base) (jacobian (on_dict func) base xb yb)) u"
proof -
  let ?d = "on_dict func"
  let ?G = "map (\<lambda>(k, t).
             (k, \<lparr>shape = shape t,
                  data = map (\<lambda>i. sum_list (map2 (\<lambda>ub (x, y). ub * ?d base x y k i) u (zip xb yb)))
                           [0..<numel t]\<rparr>)) base"
  have 1: "vjp func base xb yb u = Inr ?G" using assms by (simp add: vjp_def accepts_tuple_def)
  have 2: "same_structure ?G base"
    by (simp add: same_structure_def comp_def case_prod_unfold)
  have 3: "wf_params ?G = distinct (map fst base)"
    by (simp add: wf_params_def comp_def case_prod_unfold list_all_iff numel_def)
  have "flatten_params ?G
      = concat (map (\<lambda>kt. map (\<lambda>i. \<Sum>p\<leftarrow>zip u (zip xb yb). fst p * ?d base (fst (snd p)) (snd (snd p)) (fst kt) i)
                 [0..<numel (snd kt)]) base)"
    by (simp add: flatten_params_def comp_def case_prod_unfold)
  also have "\<dots> = map (\<lambda>j. \<Sum>p\<leftarrow>zip u (zip xb yb). fst p *
        (concat (map (\<lambda>kt. map (?d base (fst (snd p)) (snd (snd p)) (fst kt)) [0..<numel (snd kt)]) base) ! j))
       [0..<sum_list (map (\<lambda>kt. numel (snd kt)) base)]"
    by (rule concat_blocks_nth [where Z = "zip u (zip xb yb)" and g = "\<lambda>e kt i. ?d base (fst e) (snd e) (fst kt) i"
        and ln = "\<lambda>kt. numel (snd kt)" and qs = base])
  also have "\<dots> = mat_vec (transpose_n (n_params base) (jacobian ?d base xb yb)) u"
    by (simp add: mat_vec_def transpose_n_def jacobian_def n_params_def dot_map_left comp_def
        case_prod_unfold)
  finally have 4: "flatten_params ?G = mat_vec (transpose_n (n_params base) (jacobian ?d base xb yb)) u" .
  show ?thesis
    by (rule exI [of _ ?G]) (simp only: 1 2 3 4 simp_thms)
qed

lemma matmul_square:
  "square n A \<Longrightarrow> length v = n \<Longrightarrow> matmul A v = Inr (mat_vec A v)"
  by (simp add: matmul_def square_def mat_vec_def)

lemma length_mat_vec: "length (mat_vec A v) = length A"
  by (simp add: mat_vec_def)

lemma and_then_Inr: "and_then (Inr a) f = f a"
  by (simp add: and_then_def)

lemma and_then_Inl: "and_then (Inl e) f = Inl e"
  by (simp add: and_then_def)

lemma dict_comp_sub:
  assumes "map fst c = map fst G'" and "map (shape \<circ> snd) c = map (shape \<circ> snd) G'"
    and "\<forall>kt\<in>set G'. map_of G (fst kt) = Some (snd kt)"
    and "list_all (\<lambda>kt. length (data (snd kt)) = numel (snd kt)) c"
    and "list_all (\<lambda>kt. length (data (snd kt)) = numel (snd kt)) G'"
  shows "dict_comp (\<lambda>k v. and_then (getitem G k) (tensor_zip (-) v)) c
       = Inr (unflatten c (vec_sub (concat (map (data \<circ> snd) c)) (concat (map (data \<circ> snd) G'))))"
  using assms
proof (induction c arbitrary: G')
  case Nil
  then show ?case by simp
next
  case (Cons a c)
  then obtain g G'' where G': "G' = g # G''" by (cases G') auto
  obtain k v where a: "a = (k, v)" by (cases a)
  have kg: "fst g = k" and sh: "shape (snd g) = shape v" using Cons.prems(1,2) G' a by auto
  have lv: "length (data v) = numel v" using Cons.prems(4) a by simp
  have lg: "length (data (snd g)) = numel v" using Cons.prems(5) G' sh by (simp add: numel_def)
  have look: "getitem G k = Inr (snd g)" using Cons.prems(3) G' kg by (auto simp: getitem_def)
  have IH: "dict_comp (\<lambda>k v. and_then (getitem G k) (tensor_zip (-) v)) c
       = Inr (unflatten c (vec_sub (concat (map (data \<circ> snd) c)) (concat (map (data \<circ> snd) G''))))"
    using Cons.prems G' by (intro Cons.IH) auto
  have head: "and_then (getitem G k) (tensor_zip (-) v)
       = Inr \<lparr>shape = shape v, data = map2 (-) (data v) (data (snd g))\<rparr>"
    using look sh by (simp add: and_then_Inr tensor_zip_def)
  have lhs: "dict_comp (\<lambda>k v. and_then (getitem G k) (tensor_zip (-) v)) (a # c)
       = Inr ((k, \<lparr>shape = shape v, data = map2 (-) (data v) (data (snd g))\<rparr>)
              # unflatten c (vec_sub (concat (map (data \<circ> snd) c)) (concat (map (data \<circ> snd) G''))))"
    by (simp add: a head IH)
  have rhs: "unflatten (a # c) (vec_sub (concat (map (data \<circ> snd) (a # c))) (concat (map (data \<circ> snd) G')))
       = (k, \<lparr>shape = shape v, data = map2 (-) (data v) (data (snd g))\<rparr>)
              # unflatten c (vec_sub (concat (map (data \<circ> snd) c)) (concat (map (data \<circ> snd) G'')))"
    using lv lg by (simp add: a G' vec_sub_def)
  show ?case by (simp only: lhs rhs)
qed

lemma batched_proj_closed:
  assumes wfb: "distinct (map fst base)" and wfc: "wf_params c" and ss: "same_structure c base"
    and len: "length xb = length yb" and sq: "square (length xb) inv_jjt"
    and nb: "base \<noteq> []" and nx: "xb \<noteq> []" and tup: "accepts_tuple func"
  shows "batched_proj func base (Dict c) xb yb inv_jjt
       = Inr (Dict (unflatten c (vec_sub (flatten_params c)
            (mat_vec (transpose_n (n_params base) (jacobian (on_dict func) base xb yb))
               (mat_vec inv_jjt (mat_vec (jacobian (on_dict func) base xb yb) (flatten_params c)))))))"
proof -
  let ?J = "jacobian (on_dict func) base xb yb"
  let ?jv = "mat_vec ?J (flatten_params c)"
  let ?u = "mat_vec inv_jjt ?jv"
  have 1: "jvp func base (Dict c) xb yb = Inr ?jv" by (rule jvp_flat [OF wfc ss len nb nx])
  have ljv: "length ?jv = length xb" using len by (simp add: mat_vec_def jacobian_def)
  have 2: "matmul inv_jjt ?jv = Inr ?u" by (rule matmul_square [OF sq ljv])
  have lu: "length ?u = length xb" using sq by (simp add: mat_vec_def square_def)
  obtain G where 3: "vjp func base xb yb ?u = Inr G" and G1: "same_structure G base"
    and G2: "wf_params G = distinct (map fst base)"
    and G3: "flatten_params G = mat_vec (transpose_n (n_params base) ?J) ?u"
    using vjp_flat [OF len lu nb nx tup] by blast
  have wfG: "wf_params G" using G2 wfb by simp
  have 4: "dict_comp (\<lambda>k v. and_then (getitem G k) (tensor_zip (-) v)) c
       = Inr (unflatten c (vec_sub (flatten_params c) (flatten_params G)))"
    unfolding flatten_params_def using wfG wfc ss G1
    by (intro dict_comp_sub) (auto simp: wf_params_def same_structure_def)
  show ?thesis
    by (simp add: batched_proj_def 1 2 3 4 items_def G3)
qed

subsection \<open>Matrices\<close>

lemma dot_Nil [simp]: "dot [] v = 0" "dot u [] = 0"
  by (simp_all add: dot_def)

lemma dot_Cons [simp]: "dot (a # u) (b # v) = a * b + dot u v"
  by (simp add: dot_def)










lemma length_flatten:
  "list_all (\<lambda>kt. length (data (snd kt)) = numel (snd kt)) c \<Longrightarrow> length (flatten_params c) = n_params c"
  by (induction c) (simp_all add: flatten_params_def n_params_def)

lemma n_params_same: "map (shape \<circ> snd) c = map (shape \<circ> snd) base \<Longrightarrow> n_params c = n_params base"
proof -
  assume "map (shape \<circ> snd) c = map (shape \<circ> snd) base"
  then have "map prod_list (map (shape \<circ> snd) c) = map prod_list (map (shape \<circ> snd) base)" by simp
  then show ?thesis by (simp add: n_params_def numel_def comp_def)
qed

lemma length_jacobian: "length (jacobian func base xb yb) = min (length xb) (length yb)"
  by (simp add: jacobian_def)



lemma length_transpose_n: "length (transpose_n n A) = n"
  by (simp add: transpose_n_def)




lemma same_structure_unflatten: "same_structure (unflatten c v) c"
  by (induction c v rule: unflatten.induct) (simp_all add: same_structure_def)

lemma wf_unflatten:
  "distinct (map fst c) \<Longrightarrow> n_params c \<le> length v \<Longrightarrow> wf_params (unflatten c v)"
proof -
  have keys: "map fst (unflatten c v) = map fst c"
    using same_structure_unflatten [of c v] by (simp add: same_structure_def)
  have "n_params c \<le> length v \<Longrightarrow>
        list_all (\<lambda>kt. length (data (snd kt)) = numel (snd kt)) (unflatten c v)"
    by (induction c v rule: unflatten.induct) (simp_all add: n_params_def numel_def)
  then show "distinct (map fst c) \<Longrightarrow> n_params c \<le> length v \<Longrightarrow> wf_params (unflatten c v)"
    by (simp add: wf_params_def keys)
qed






lemma length_vec_sub: "length (vec_sub u v) = min (length u) (length v)"
  by (simp add: vec_sub_def)

lemma length_proj_vec:
  assumes "length v = N"
  shows "length (vec_sub v (mat_vec (transpose_n N J) u)) = N"
  using assms by (simp add: length_vec_sub length_mat_vec length_transpose_n)

subsection \<open>The Gram matrix of a batch\<close>

lemma flatten_all_ok:
  "list_all (\<lambda>j. list_all (\<lambda>t. shape t \<noteq> []) j) js \<Longrightarrow> flatten_all js = Inr (map (map data) js)"
  by (induction js) (simp_all add: flatten1_def list_all_iff list_ex_iff)

lemma batched_jjt_blocks:
  assumes "ps \<noteq> []" and "length xb = length yb" and "xb \<noteq> []"
    and "list_all (\<lambda>kt. shape (snd kt) \<noteq> []) ps"
  shows "batched_jjt func ps xb yb
       = Inr (sum0 (map (\<lambda>kt. gram (jac_block (on_dict func) ps xb yb kt)) ps))"
proof -
  let ?jac = "map (\<lambda>(k, t). (k, map (\<lambda>(x, y). grad_tensor (on_dict func) ps x y k t) (zip xb yb))) ps"
  have 1: "vmap_jacrev func ps xb yb = Inr ?jac" using assms(1-3) by (simp add: vmap_jacrev_def)
  have "list_all (\<lambda>j. list_all (\<lambda>t. shape t \<noteq> []) j) (map snd ?jac)"
    using assms(4) by (simp add: list_all_iff grad_tensor_def case_prod_unfold)
  then have 2: "flatten_all (map snd ?jac) = Inr (map (map data) (map snd ?jac))"
    by (rule flatten_all_ok)
  have 3: "map (\<lambda>j. einsum_NP_MP_NM j j) (map (map data) (map snd ?jac))
         = map (\<lambda>kt. gram (jac_block (on_dict func) ps xb yb kt)) ps"
    by (simp add: jac_block_def grad_tensor_def einsum_NP_MP_NM_def gram_def comp_def
        case_prod_unfold)
  have 4: "stack (map (\<lambda>kt. gram (jac_block (on_dict func) ps xb yb kt)) ps)
         = Inr (map (\<lambda>kt. gram (jac_block (on_dict func) ps xb yb kt)) ps)"
    using assms(1) by (simp add: stack_def)
  show ?thesis by (simp only: batched_jjt_def 1 2 3 4 sum.case)
qed

lemma sum0_blocks_gram:
  assumes "ps \<noteq> []"
  shows "sum0 (map (\<lambda>kt. gram (jac_block d ps xb yb kt)) ps) = gram (jacobian d ps xb yb)"
proof -
  have "sum0 (map (\<lambda>kt. gram (map (\<lambda>e. (\<lambda>(x, y) kt. map (d ps x y (fst kt)) [0..<numel (snd kt)]) e kt) (zip xb yb))) ps)
      = gram (map (\<lambda>e. concat (map ((\<lambda>(x, y) kt. map (d ps x y (fst kt)) [0..<numel (snd kt)]) e) ps)) (zip xb yb))"
    using assms by (intro gram_blocks) (auto simp: case_prod_unfold)
  then show ?thesis by (simp add: jac_block_def jacobian_def case_prod_unfold)
qed

lemma batched_jjt_closed:
  assumes "ps \<noteq> []" and "length xb = length yb" and "xb \<noteq> []"
    and "list_all (\<lambda>kt. shape (snd kt) \<noteq> []) ps"
  shows "batched_jjt func ps xb yb = Inr (gram (jacobian (on_dict func) ps xb yb))"
  using batched_jjt_blocks [OF assms] sum0_blocks_gram [OF assms(1)] by simp

text \<open>
  C8. For a parameter set with at least one block and no 0-dimensional parameter, and a
  batch of \<open>B \<ge> 1\<close> examples, \<open>batched_jjt\<close> returns the sum over the parameter blocks of the
  Gram matrices \<open>J_block J_block\<^sup>T\<close> of the flattened per-example block Jacobians; that sum
  is the Gram matrix \<open>J J\<^sup>T\<close> of the full stacked Jacobian, a \<open>B \<times> B\<close> matrix.
\<close>

theorem batched_jjt_gram:
  assumes "ps \<noteq> []" and "length xb = length yb" and "xb \<noteq> []"
    and "list_all (\<lambda>kt. shape (snd kt) \<noteq> []) ps"
  shows "batched_jjt func ps xb yb
           = Inr (sum0 (map (\<lambda>kt. gram (jac_block (on_dict func) ps xb yb kt)) ps))
       \<and> sum0 (map (\<lambda>kt. gram (jac_block (on_dict func) ps xb yb kt)) ps)
           = gram (jacobian (on_dict func) ps xb yb)
       \<and> square (length xb) (gram (jacobian (on_dict func) ps xb yb))"
proof (intro conjI)
  show "batched_jjt func ps xb yb
          = Inr (sum0 (map (\<lambda>kt. gram (jac_block (on_dict func) ps xb yb kt)) ps))"
    by (rule batched_jjt_blocks [OF assms])
  show "sum0 (map (\<lambda>kt. gram (jac_block (on_dict func) ps xb yb kt)) ps)
          = gram (jacobian (on_dict func) ps xb yb)"
    by (rule sum0_blocks_gram [OF assms(1)])
  show "square (length xb) (gram (jacobian (on_dict func) ps xb yb))"
    using square_gram [of "jacobian (on_dict func) ps xb yb"] assms(2) by (simp add: jacobian_def)
qed

theorem batched_jjt_gram_witness:
  "ex_base \<noteq> [] \<and> length [1, 2 :: real] = length [3, 4 :: real] \<and> [1, 2 :: real] \<noteq> []
   \<and> list_all (\<lambda>kt. shape (snd kt) \<noteq> []) ex_base
   \<and> batched_jjt ex_func ex_base [1, 2] [3, 4] = Inr [[11, 15], [15, 21]]
   \<and> gram (jacobian (on_dict ex_func) ex_base [1, 2] [3, 4]) = [[11, 15], [15, 21]]"
proof -
  have h1: "ex_base \<noteq> []" by (simp add: ex_base_def)
  have h2: "length [1, 2 :: real] = length [3, 4 :: real]" by simp
  have h3: "[1, 2 :: real] \<noteq> []" by simp
  have h4: "list_all (\<lambda>kt. shape (snd kt) \<noteq> []) ex_base" by (simp add: ex_base_def)
  have v: "gram (jacobian (on_dict ex_func) ex_base [1, 2] [3, 4]) = [[11, 15], [15, 21]]"
    by code_simp
  show ?thesis using batched_jjt_gram [OF h1 h2 h3 h4, of ex_func] h1 h4 v by simp
qed

subsection \<open>The projector of one batch\<close>

















subsection \<open>Passes and cycles\<close>

lemma funpow_and_then_Inl:
  fixes F :: "'a \<Rightarrow> error + 'a"
  shows "((\<lambda>r. and_then r F) ^^ n) (Inl e) = Inl e"
proof (induction n)
  case 0
  show ?case by simp
next
  case (Suc n)
  then show ?case by (simp add: and_then_Inl)
qed

lemma cycle_loop_funpow:
  "cycle_loop func base dl cache n p
     = ((\<lambda>r. and_then r (\<lambda>q. apply_proj_cycle func base q dl cache)) ^^ n) (Inr p)"
proof (induction n arbitrary: p)
  case 0
  then show ?case by simp
next
  case (Suc n)
  let ?G = "\<lambda>r. and_then r (\<lambda>q. apply_proj_cycle func base q dl cache)"
  have swap: "(?G ^^ Suc n) (Inr p) = (?G ^^ n) (?G (Inr p))" by (simp only: funpow_Suc_right o_apply)
  show ?case
  proof (cases "apply_proj_cycle func base p dl cache")
    case (Inl e)
    then show ?thesis unfolding swap by (simp add: and_then_Inr funpow_and_then_Inl)
  next
    case (Inr p')
    then show ?thesis unfolding swap by (simp add: and_then_Inr Suc.IH)
  qed
qed

lemma fold_and_then_Inl: "fold (\<lambda>x r. and_then r (F x)) xs (Inl e) = Inl e"
  by (induction xs) (simp_all add: and_then_Inl)

lemma fold_step_Inl:
  "fold (\<lambda>(b, xb, yb) r. and_then r (F b xb yb)) xs (Inl e) = Inl e"
  using fold_and_then_Inl [of "\<lambda>x. F (fst x) (fst (snd x)) (snd (snd x))" xs e]
  by (simp add: case_prod_unfold)

lemma proj_loop_fold:
  "proj_loop func base cache b dl p
     = fold (\<lambda>(b, xb, yb) r.
               and_then r (\<lambda>q. and_then (list_index cache b) (batched_proj func base q xb yb)))
         (zip [b..<b + length dl] dl) (Inr p)"
proof (induction dl arbitrary: b p)
  case Nil
  then show ?case by simp
next
  case (Cons a dl)
  obtain xb yb where a: "a = (xb, yb)" by (cases a)
  let ?step = "\<lambda>(b, xb, yb) r.
               and_then r (\<lambda>q. and_then (list_index cache b) (batched_proj func base q xb yb))"
  define rest where "rest = zip [Suc b..<Suc b + length dl] dl"
  have "b < b + length (a # dl)" by simp
  then have "[b..<b + length (a # dl)] = b # [Suc b..<b + length (a # dl)]"
    by (rule upt_conv_Cons)
  then have up: "zip [b..<b + length (a # dl)] (a # dl) = (b, xb, yb) # rest"
    by (simp add: rest_def a)
  have step: "fold ?step (zip [b..<b + length (a # dl)] (a # dl)) (Inr p)
      = fold ?step rest (and_then (list_index cache b) (batched_proj func base p xb yb))"
    unfolding up by (simp add: and_then_Inr)
  have IH: "\<And>q. proj_loop func base cache (Suc b) dl q = fold ?step rest (Inr q)"
    unfolding rest_def by (rule Cons.IH)
  show ?case
  proof (cases "list_index cache b")
    case (Inl e)
    then show ?thesis unfolding step by (simp add: a and_then_Inl fold_step_Inl)
  next
    case (Inr inv)
    show ?thesis
    proof (cases "batched_proj func base p xb yb inv")
      case (Inl e)
      then show ?thesis unfolding step using Inr by (simp add: a and_then_Inr fold_step_Inl)
    next
      case (Inr p')
      then show ?thesis unfolding step using \<open>list_index cache b = Inr inv\<close>
        by (simp add: a and_then_Inr IH)
    qed
  qed
qed

text \<open>
  C9. With \<open>n_cycle = 0\<close> the engine returns its input unchanged and applies no projection.
  With \<open>n_cycle = n\<close> it is \<open>n\<close> passes of \<open>apply_proj_cycle\<close> one after the other, a pass
  that raises ending the run; one pass is the fold over the batches in order of the projector
  of the batch, with entry \<open>b\<close> of the cache for batch \<open>b\<close>, each output the next input.
\<close>

theorem alternating_projection_cycles:
  "alternating_projection func base 0 p dl cache = Inr p
   \<and> alternating_projection func base (int n) p dl cache
       = ((\<lambda>r. and_then r (\<lambda>q. apply_proj_cycle func base q dl cache)) ^^ n) (Inr p)
   \<and> apply_proj_cycle func base p dl cache
       = (if base = [] then Inl StopIteration
          else fold (\<lambda>(b, xb, yb) r.
                 and_then r (\<lambda>q. and_then (list_index cache b) (batched_proj func base q xb yb)))
               (zip [0..<length dl] dl) (Inr p))"
proof (intro conjI)
  show "alternating_projection func base 0 p dl cache = Inr p"
    by (simp add: alternating_projection_def)
  show "alternating_projection func base (int n) p dl cache
       = ((\<lambda>r. and_then r (\<lambda>q. apply_proj_cycle func base q dl cache)) ^^ n) (Inr p)"
    by (simp add: alternating_projection_def cycle_loop_funpow)
  show "apply_proj_cycle func base p dl cache
       = (if base = [] then Inl StopIteration
          else fold (\<lambda>(b, xb, yb) r.
                 and_then r (\<lambda>q. and_then (list_index cache b) (batched_proj func base q xb yb)))
               (zip [0..<length dl] dl) (Inr p))"
    using proj_loop_fold [of func base cache 0 dl p] by (simp add: apply_proj_cycle_def)
qed

theorem alternating_projection_cycles_witness:
  "alternating_projection ex_func ex_base 0 (Dict ex_cand) [([1], [2])] [[[1 / 6]]] = Inr (Dict ex_cand)
   \<and> alternating_projection ex_func ex_base (int 2) (Dict ex_cand) [([1], [2])] [[[1 / 6]]]
       = Inr (Dict ex_proj)"
proof -
  have c: "apply_proj_cycle ex_func ex_base (Dict ex_cand) [([1], [2])] [[[1 / 6]]] = Inr (Dict ex_proj)"
    by code_simp
  have d: "apply_proj_cycle ex_func ex_base (Dict ex_proj) [([1], [2])] [[[1 / 6]]] = Inr (Dict ex_proj)"
    by code_simp
  show ?thesis
    using alternating_projection_cycles [of ex_func ex_base "Dict ex_cand" "[([1], [2])]" "[[[1 / 6]]]" 2]
    by (simp add: numeral_2_eq_2 c d and_then_Inr)
qed

lemma proj_loop_needs_cache:
  "proj_loop func base cache b dl p = Inr q \<Longrightarrow> dl \<noteq> [] \<Longrightarrow> b + length dl \<le> length cache"
proof (induction dl arbitrary: b p)
  case Nil
  then show ?case by simp
next
  case (Cons a dl)
  obtain xb yb where a: "a = (xb, yb)" by (cases a)
  from Cons.prems(1) have b: "b < length cache"
    by (auto simp: a list_index_def split: if_splits)
  from Cons.prems(1) b obtain p' where
    "proj_loop func base cache (Suc b) dl p' = Inr q"
    by (auto simp: a list_index_def split: sum.splits)
  then have "dl \<noteq> [] \<Longrightarrow> Suc b + length dl \<le> length cache" by (rule Cons.IH)
  then show ?case using b by (cases dl) auto
qed

lemma proj_loop_zip:
  "b + length dl \<le> length cache \<Longrightarrow>
   proj_loop func base cache b dl p
     = fold (\<lambda>((xb, yb), inv_jjt) r. and_then r (\<lambda>q. batched_proj func base q xb yb inv_jjt))
         (zip dl (drop b cache)) (Inr p)"
proof (induction dl arbitrary: b p)
  case Nil
  then show ?case by simp
next
  case (Cons a dl)
  obtain xb yb where a: "a = (xb, yb)" by (cases a)
  let ?step = "\<lambda>((xb, yb), inv_jjt) r. and_then r (\<lambda>q. batched_proj func base q xb yb inv_jjt)"
  have b: "b < length cache" using Cons.prems by simp
  then have dr: "drop b cache = cache ! b # drop (Suc b) cache" by (simp add: Cons_nth_drop_Suc)
  have li: "list_index cache b = Inr (cache ! b)" using b by (simp add: list_index_def)
  have IH: "\<And>q. proj_loop func base cache (Suc b) dl q = fold ?step (zip dl (drop (Suc b) cache)) (Inr q)"
    using Cons.prems by (intro Cons.IH) simp
  have Inl': "\<And>e xs. fold ?step xs (Inl e) = Inl e"
    using fold_and_then_Inl [of "\<lambda>x q. batched_proj func base q (fst (fst x)) (snd (fst x)) (snd x)"]
    by (simp add: case_prod_unfold)
  show ?case
  proof (cases "batched_proj func base p xb yb (cache ! b)")
    case (Inl e)
    then show ?thesis by (simp add: a li dr and_then_Inr Inl')
  next
    case (Inr p')
    then show ?thesis by (simp add: a li dr and_then_Inr IH)
  qed
qed

lemma proj_loop_append:
  "proj_loop func base cache b (dl1 @ dl2) p
     = and_then (proj_loop func base cache b dl1 p) (proj_loop func base cache (b + length dl1) dl2)"
proof (induction dl1 arbitrary: b p)
  case Nil
  then show ?case by (simp add: and_then_Inr)
next
  case (Cons a dl1)
  obtain xb yb where a: "a = (xb, yb)" by (cases a)
  show ?case
    by (simp add: a Cons.IH and_then_Inl split: sum.splits)
qed

text \<open>
  C10. A pass that succeeds over \<open>m\<close> batches had a cache of at least \<open>m\<close> matrices; with
  such a cache the pass pairs batch \<open>b\<close> with entry \<open>b\<close> and reads entries \<open>0\<close> to \<open>m - 1\<close>
  only; with a shorter cache, once the batches that have an entry are projected, the lookup
  of the first missing entry raises \<open>IndexError\<close>.
\<close>

theorem apply_proj_cycle_cache_index:
  "(apply_proj_cycle func base p dl cache = Inr q \<longrightarrow> length dl \<le> length cache)
   \<and> (length dl \<le> length cache \<longrightarrow>
        apply_proj_cycle func base p dl cache
          = (if base = [] then Inl StopIteration
             else fold (\<lambda>((xb, yb), inv_jjt) r.
                    and_then r (\<lambda>q. batched_proj func base q xb yb inv_jjt))
                  (zip dl cache) (Inr p)))
   \<and> (length cache < length dl
        \<and> apply_proj_cycle func base p (take (length cache) dl) cache = Inr q \<longrightarrow>
        apply_proj_cycle func base p dl cache = Inl IndexError)"
proof (intro conjI impI)
  assume "apply_proj_cycle func base p dl cache = Inr q"
  then have "proj_loop func base cache 0 dl p = Inr q"
    by (simp add: apply_proj_cycle_def split: if_splits)
  then have "dl \<noteq> [] \<Longrightarrow> 0 + length dl \<le> length cache" by (rule proj_loop_needs_cache)
  then show "length dl \<le> length cache" by (cases dl) auto
next
  assume "length dl \<le> length cache"
  then show "apply_proj_cycle func base p dl cache
          = (if base = [] then Inl StopIteration
             else fold (\<lambda>((xb, yb), inv_jjt) r.
                    and_then r (\<lambda>q. batched_proj func base q xb yb inv_jjt))
                  (zip dl cache) (Inr p))"
    using proj_loop_zip [of 0 dl cache func base p] by (simp add: apply_proj_cycle_def)
next
  assume h: "length cache < length dl
        \<and> apply_proj_cycle func base p (take (length cache) dl) cache = Inr q"
  then have nb: "base \<noteq> []" and
    first: "proj_loop func base cache 0 (take (length cache) dl) p = Inr q"
    by (auto simp: apply_proj_cycle_def split: if_splits)
  obtain a rest where dr: "drop (length cache) dl = a # rest"
    using h by (cases "drop (length cache) dl") auto
  obtain xb yb where a: "a = (xb, yb)" by (cases a)
  have "proj_loop func base cache (length cache) (a # rest) q = Inl IndexError"
    by (simp add: a list_index_def)
  moreover have "length (take (length cache) dl) = length cache" using h by simp
  ultimately have "proj_loop func base cache 0 (take (length cache) dl @ drop (length cache) dl) p
      = Inl IndexError"
    unfolding proj_loop_append using first dr by (simp add: and_then_Inr)
  then show "apply_proj_cycle func base p dl cache = Inl IndexError"
    using nb by (simp add: apply_proj_cycle_def)
qed

theorem apply_proj_cycle_cache_index_witness:
  "apply_proj_cycle ex_func ex_base (Dict ex_cand) [([1], [2])] [[[1 / 6]]] = Inr (Dict ex_proj)
   \<and> length [([1 :: real], [2 :: real])] \<le> length [[[1 / 6 :: real]]]
   \<and> length [[[1 / 6 :: real]]] < length [([1 :: real], [2 :: real]), ([1], [2])]
   \<and> apply_proj_cycle ex_func ex_base (Dict ex_cand)
        (take (length [[[1 / 6 :: real]]]) [([1], [2]), ([1], [2])]) [[[1 / 6]]] = Inr (Dict ex_proj)
   \<and> apply_proj_cycle ex_func ex_base (Dict ex_cand) [([1], [2]), ([1], [2])] [[[1 / 6]]]
       = Inl IndexError"
proof -
  have c: "apply_proj_cycle ex_func ex_base (Dict ex_cand) [([1], [2])] [[[1 / 6]]] = Inr (Dict ex_proj)"
    by code_simp
  show ?thesis
    using apply_proj_cycle_cache_index [of ex_func ex_base "Dict ex_cand" "[([1], [2]), ([1], [2])]"
        "[[[1 / 6]]]" "Dict ex_proj"] c
    by simp
qed

subsection \<open>The cache of inverses\<close>

lemma inv_jjt_loop_closed:
  assumes "base \<noteq> []" and "list_all (\<lambda>kt. shape (snd kt) \<noteq> []) base"
    and "list_all (\<lambda>(xb, yb). xb \<noteq> [] \<and> length xb = length yb) dl"
  shows "inv_jjt_loop pinv func base dl acc
       = Inr (acc @ map (\<lambda>(xb, yb). pinv (gram (jacobian (on_dict func) base xb yb))) dl)"
  using assms(3)
proof (induction dl arbitrary: acc)
  case Nil
  then show ?case by simp
next
  case (Cons a dl)
  obtain xb yb where a: "a = (xb, yb)" by (cases a)
  have "length xb = length yb" "xb \<noteq> []" using Cons.prems a by auto
  then have "batched_jjt func base xb yb = Inr (gram (jacobian (on_dict func) base xb yb))"
    using assms(1,2) by (intro batched_jjt_closed)
  then show ?case using Cons by (simp add: a)
qed

lemma inv_jjt_loop_length:
  "inv_jjt_loop pinv func base dl acc = Inr c \<Longrightarrow> length c = length acc + length dl"
proof (induction dl arbitrary: acc)
  case Nil
  then show ?case by simp
next
  case (Cons a dl)
  obtain xb yb where a: "a = (xb, yb)" by (cases a)
  from Cons.prems obtain m where "inv_jjt_loop pinv func base dl (acc @ [pinv m]) = Inr c"
    by (auto simp: a split: sum.splits)
  then have "length c = length (acc @ [pinv m]) + length dl" by (rule Cons.IH)
  then show ?case by simp
qed

text \<open>
  C3. If the path names an existing file, \<open>precompute_inv_jjt\<close> returns its content as it
  is and leaves the file system as it was, whatever the function, the parameters and the
  batches are. Otherwise, for parameters that are not empty and not 0-dimensional, batches
  of \<open>B \<ge> 1\<close> examples and a path that can be written, it returns the pseudo-inverses of the
  matrices \<open>J J\<^sup>T\<close> of the batches in order and stores that sequence at the path. In every
  run that finds no file, the file system is either unchanged or holds the full sequence,
  one matrix per batch.
\<close>

theorem precompute_inv_jjt_cache:
  "(path \<noteq> [] \<and> files fs path = Some c \<longrightarrow>
      precompute_inv_jjt pinv func base dl (Some path) fs = (Inr c, fs))
   \<and> (path \<noteq> [] \<and> files fs path = None \<and> writable fs path \<and> base \<noteq> []
        \<and> list_all (\<lambda>kt. shape (snd kt) \<noteq> []) base
        \<and> list_all (\<lambda>(xb, yb). xb \<noteq> [] \<and> length xb = length yb) dl \<longrightarrow>
      precompute_inv_jjt pinv func base dl (Some path) fs
        = (Inr (map (\<lambda>(xb, yb). pinv (gram (jacobian (on_dict func) base xb yb))) dl),
           fs\<lparr>files := (files fs)(path \<mapsto>
                 map (\<lambda>(xb, yb). pinv (gram (jacobian (on_dict func) base xb yb))) dl)\<rparr>))
   \<and> (files fs path = None \<longrightarrow>
        snd (precompute_inv_jjt pinv func base dl (Some path) fs) = fs
        \<or> (\<exists>c'. length c' = length dl
              \<and> precompute_inv_jjt pinv func base dl (Some path) fs
                  = (Inr c', fs\<lparr>files := (files fs)(path \<mapsto> c')\<rparr>)))"
proof (intro conjI impI)
  assume "path \<noteq> [] \<and> files fs path = Some c"
  then show "precompute_inv_jjt pinv func base dl (Some path) fs = (Inr c, fs)"
    by (simp add: precompute_inv_jjt_def path_exists_def pickle_load_def)
next
  assume h: "path \<noteq> [] \<and> files fs path = None \<and> writable fs path \<and> base \<noteq> []
        \<and> list_all (\<lambda>kt. shape (snd kt) \<noteq> []) base
        \<and> list_all (\<lambda>(xb, yb). xb \<noteq> [] \<and> length xb = length yb) dl"
  then have "inv_jjt_loop pinv func base dl []
       = Inr ([] @ map (\<lambda>(xb, yb). pinv (gram (jacobian (on_dict func) base xb yb))) dl)"
    by (intro inv_jjt_loop_closed) auto
  then show "precompute_inv_jjt pinv func base dl (Some path) fs
        = (Inr (map (\<lambda>(xb, yb). pinv (gram (jacobian (on_dict func) base xb yb))) dl),
           fs\<lparr>files := (files fs)(path \<mapsto>
                 map (\<lambda>(xb, yb). pinv (gram (jacobian (on_dict func) base xb yb))) dl)\<rparr>)"
    using h by (simp add: precompute_inv_jjt_def path_exists_def pickle_dump_def)
next
  assume none: "files fs path = None"
  show "snd (precompute_inv_jjt pinv func base dl (Some path) fs) = fs
        \<or> (\<exists>c'. length c' = length dl
              \<and> precompute_inv_jjt pinv func base dl (Some path) fs
                  = (Inr c', fs\<lparr>files := (files fs)(path \<mapsto> c')\<rparr>))"
  proof (cases "inv_jjt_loop pinv func base dl []")
    case (Inl e)
    then show ?thesis using none by (simp add: precompute_inv_jjt_def path_exists_def)
  next
    case (Inr c')
    then have "length c' = length dl" using inv_jjt_loop_length [of pinv func base dl "[]" c'] by simp
    then show ?thesis using none Inr
      by (simp add: precompute_inv_jjt_def path_exists_def pickle_dump_def)
  qed
qed

theorem precompute_inv_jjt_cache_witness:
  "''c.pkl'' \<noteq> [] \<and> files (ex_fs\<lparr>files := [''c.pkl'' \<mapsto> [[[5]]]]\<rparr>) ''c.pkl'' = Some [[[5]]]
   \<and> precompute_inv_jjt ex_pinv ex_func ex_base [([1], [2])] (Some ''c.pkl'')
        (ex_fs\<lparr>files := [''c.pkl'' \<mapsto> [[[5]]]]\<rparr>)
       = (Inr [[[5]]], ex_fs\<lparr>files := [''c.pkl'' \<mapsto> [[[5]]]]\<rparr>)
   \<and> files ex_fs ''c.pkl'' = None \<and> writable ex_fs ''c.pkl'' \<and> ex_base \<noteq> []
   \<and> list_all (\<lambda>kt. shape (snd kt) \<noteq> []) ex_base
   \<and> list_all (\<lambda>(xb, yb). xb \<noteq> [] \<and> length xb = length yb) [([1 :: real], [2 :: real])]
   \<and> precompute_inv_jjt ex_pinv ex_func ex_base [([1], [2])] (Some ''c.pkl'') ex_fs
       = (Inr [[[1 / 6]]], ex_fs\<lparr>files := (files ex_fs)(''c.pkl'' \<mapsto> [[[1 / 6]]])\<rparr>)"
proof -
  have v: "map (\<lambda>(xb, yb). ex_pinv (gram (jacobian (on_dict ex_func) ex_base xb yb))) [([1], [2])]
         = [[[1 / 6]]]"
    by code_simp
  have b: "ex_base \<noteq> []" "list_all (\<lambda>kt. shape (snd kt) \<noteq> []) ex_base"
    by (simp_all add: ex_base_def)
  have f: "files ex_fs ''c.pkl'' = None" "writable ex_fs ''c.pkl''" by (simp_all add: ex_fs_def)
  show ?thesis
    using precompute_inv_jjt_cache [of "''c.pkl''" "ex_fs\<lparr>files := [''c.pkl'' \<mapsto> [[[5]]]]\<rparr>" "[[[5]]]"
        ex_pinv ex_func ex_base "[([1], [2])]"]
      precompute_inv_jjt_cache [of "''c.pkl''" ex_fs "[]" ex_pinv ex_func ex_base "[([1], [2])]"]
      v b f
    by simp
qed

text \<open>
  C4. With no path (\<open>None\<close>, the default of \<open>save_path\<close>) \<open>precompute_inv_jjt\<close> raises
  \<open>TypeError\<close> before it computes anything, and with the empty path it raises as well: the
  call fails where the specification says that caching is skipped and the sequence returned.
\<close>

theorem precompute_inv_jjt_without_path:
  "precompute_inv_jjt pinv func base dl None fs = (Inl TypeError, fs)
   \<and> (\<exists>e. precompute_inv_jjt pinv func base dl (Some []) fs = (Inl e, fs))"
  by (simp add: precompute_inv_jjt_def path_exists_def pickle_dump_def split: sum.splits)

theorem precompute_inv_jjt_without_path_witness:
  "precompute_inv_jjt ex_pinv ex_func ex_base [([1], [2])] None ex_fs = (Inl TypeError, ex_fs)
   \<and> precompute_inv_jjt ex_pinv ex_func ex_base [([1], [2])] (Some '''') ex_fs = (Inl OSError, ex_fs)"
proof -
  have b: "ex_base \<noteq> []" by (simp add: ex_base_def)
  have l: "inv_jjt_loop ex_pinv ex_func ex_base [([1], [2])] [] = Inr [[[1 / 6]]]" by code_simp
  have e: "precompute_inv_jjt ex_pinv ex_func ex_base [([1], [2])] (Some '''') ex_fs = (Inl OSError, ex_fs)"
    by (simp add: precompute_inv_jjt_def path_exists_def pickle_dump_def b l del: inv_jjt_loop.simps)
  show ?thesis
    using precompute_inv_jjt_without_path [of ex_pinv ex_func ex_base "[([1], [2])]" ex_fs] e
    by simp
qed

subsection \<open>The sampler\<close>

lemma randn_dict_props:
  "randn_dict f tpl g = (s, g') \<Longrightarrow>
   map fst s = map fst tpl \<and> map (shape \<circ> snd) s = map (shape \<circ> snd) tpl
   \<and> list_all (\<lambda>kt. length (data (snd kt)) = numel (snd kt)) s"
proof (induction tpl arbitrary: g s g')
  case Nil
  then show ?case by simp
next
  case (Cons a tpl)
  obtain k v where a: "a = (k, v)" by (cases a)
  obtain z g1 where z: "randn_like v g = (z, g1)" by (cases "randn_like v g")
  obtain rest g2 where r: "randn_dict f tpl g1 = (rest, g2)" by (cases "randn_dict f tpl g1")
  have s: "s = (k, tensor_scale f z) # rest" using Cons.prems by (simp add: a z r)
  have zz: "shape z = shape v" "length (data z) = numel v"
    using z by (auto simp: randn_like_def)
  show ?case using Cons.IH [OF r] zz by (simp add: s a tensor_scale_def numel_def)
qed

lemma randn_loop_props:
  "randn_loop f tpl n acc g = (ss, g') \<Longrightarrow>
   \<exists>new. ss = acc @ new \<and> length new = n
     \<and> list_all (\<lambda>s. same_structure s tpl
          \<and> list_all (\<lambda>kt. length (data (snd kt)) = numel (snd kt)) s) new"
proof (induction n arbitrary: acc g)
  case 0
  then show ?case by simp
next
  case (Suc n)
  obtain s g1 where s: "randn_dict f tpl g = (s, g1)" by (cases "randn_dict f tpl g")
  have "randn_loop f tpl n (acc @ [s]) g1 = (ss, g')" using Suc.prems by (simp add: s)
  then obtain new where new: "ss = (acc @ [s]) @ new" "length new = n"
    "list_all (\<lambda>s. same_structure s tpl
          \<and> list_all (\<lambda>kt. length (data (snd kt)) = numel (snd kt)) s) new"
    using Suc.IH by blast
  have "same_structure s tpl \<and> list_all (\<lambda>kt. length (data (snd kt)) = numel (snd kt)) s"
    using randn_dict_props [OF s] by (simp add: same_structure_def)
  then show ?case using new by (intro exI [of _ "s # new"]) simp
qed

lemma randn_params_tensor:
  "\<exists>perts g'. randn_params tpl (Tensor0 r) n g = (Inr perts, g') \<and> length perts = nat n
     \<and> list_all (\<lambda>s. same_structure s tpl
          \<and> list_all (\<lambda>kt. length (data (snd kt)) = numel (snd kt)) s) perts"
proof -
  obtain ss g' where l: "randn_loop (1 / sqrt r) tpl (nat n) [] g = (ss, g')"
    by (cases "randn_loop (1 / sqrt r) tpl (nat n) [] g")
  from randn_loop_props [OF l] have "length ss = nat n
     \<and> list_all (\<lambda>s. same_structure s tpl
          \<and> list_all (\<lambda>kt. length (data (snd kt)) = numel (snd kt)) s) ss" by auto
  then show ?thesis by (simp add: randn_params_def torch_sqrt_def l)
qed

lemma batched_proj_keeps:
  assumes wfb: "wf_params base" and nb: "base \<noteq> []" and tup: "accepts_tuple func"
    and wfc: "wf_params c" and ss: "same_structure c base"
    and len: "length xb = length yb" and nx: "xb \<noteq> []" and sq: "square (length xb) inv_jjt"
  shows "\<exists>r. batched_proj func base (Dict c) xb yb inv_jjt = Inr (Dict r)
     \<and> wf_params r \<and> same_structure r base"
proof -
  let ?w = "vec_sub (flatten_params c)
            (mat_vec (transpose_n (n_params base) (jacobian (on_dict func) base xb yb))
               (mat_vec inv_jjt (mat_vec (jacobian (on_dict func) base xb yb) (flatten_params c))))"
  have db: "distinct (map fst base)" using wfb by (simp add: wf_params_def)
  have 1: "batched_proj func base (Dict c) xb yb inv_jjt = Inr (Dict (unflatten c ?w))"
    by (rule batched_proj_closed [OF db wfc ss len sq nb nx tup])
  have sh: "map (shape \<circ> snd) c = map (shape \<circ> snd) base"
    using ss by (simp add: same_structure_def)
  have nc: "n_params c = n_params base" by (rule n_params_same [OF sh])
  have wl: "list_all (\<lambda>kt. length (data (snd kt)) = numel (snd kt)) c"
    using wfc by (simp add: wf_params_def)
  have lv: "length (flatten_params c) = n_params base" using length_flatten [OF wl] by (simp only: nc)
  have lw: "length ?w = n_params base" by (rule length_proj_vec [OF lv])
  have dc: "distinct (map fst c)" using wfc by (simp add: wf_params_def)
  have 2: "wf_params (unflatten c ?w)" using lw nc by (intro wf_unflatten [OF dc]) simp
  have 3: "same_structure (unflatten c ?w) base"
    using same_structure_unflatten [of c ?w] ss by (simp add: same_structure_def)
  show ?thesis using 1 2 3 by blast
qed

lemma proj_fold_keeps:
  assumes wfb: "wf_params base" and nb: "base \<noteq> []" and tup: "accepts_tuple func"
  shows "list_all (\<lambda>((xb, yb), inv_jjt).
            xb \<noteq> [] \<and> length xb = length yb \<and> square (length xb) inv_jjt) zs \<Longrightarrow>
     wf_params c \<Longrightarrow> same_structure c base \<Longrightarrow>
     \<exists>r. fold (\<lambda>((xb, yb), inv_jjt) r. and_then r (\<lambda>q. batched_proj func base q xb yb inv_jjt))
           zs (Inr (Dict c)) = Inr (Dict r)
        \<and> wf_params r \<and> same_structure r base"
proof (induction zs arbitrary: c)
  case Nil
  then show ?case by simp
next
  case (Cons z zs)
  obtain xb yb inv where z: "z = ((xb, yb), inv)" by (cases z) auto
  have b: "length xb = length yb" "xb \<noteq> []" "square (length xb) inv" using Cons.prems(1) z by auto
  obtain r where r: "batched_proj func base (Dict c) xb yb inv = Inr (Dict r)"
    "wf_params r" "same_structure r base"
    using batched_proj_keeps [OF wfb nb tup Cons.prems(2,3) b] by blast
  have "list_all (\<lambda>((xb, yb), inv_jjt).
            xb \<noteq> [] \<and> length xb = length yb \<and> square (length xb) inv_jjt) zs"
    using Cons.prems(1) by simp
  from Cons.IH [OF this r(2,3)] show ?case by (simp add: z r(1) and_then_Inr)
qed

lemma apply_proj_cycle_keeps:
  assumes "wf_params base" and "base \<noteq> []" and "accepts_tuple func" and "cache_fits dl cache"
    and "wf_params c" and "same_structure c base"
  shows "\<exists>r. apply_proj_cycle func base (Dict c) dl cache = Inr (Dict r)
        \<and> wf_params r \<and> same_structure r base"
proof -
  have len: "0 + length dl \<le> length cache" using assms(4) by (simp add: cache_fits_def)
  have all: "list_all (\<lambda>((xb, yb), inv_jjt).
            xb \<noteq> [] \<and> length xb = length yb \<and> square (length xb) inv_jjt)
         (zip dl cache)" using assms(4) by (simp add: cache_fits_def)
  show ?thesis
    using proj_fold_keeps [OF assms(1,2,3) all assms(5,6)] proj_loop_zip [OF len, of func base "Dict c"]
      assms(2)
    by (simp add: apply_proj_cycle_def)
qed

lemma cycle_loop_keeps:
  assumes "wf_params base" and "base \<noteq> []" and "accepts_tuple func" and "cache_fits dl cache"
  shows "wf_params c \<Longrightarrow> same_structure c base \<Longrightarrow>
     \<exists>r. cycle_loop func base dl cache n (Dict c) = Inr (Dict r)
        \<and> wf_params r \<and> same_structure r base"
proof (induction n arbitrary: c)
  case 0
  then show ?case by simp
next
  case (Suc n)
  obtain r where r: "apply_proj_cycle func base (Dict c) dl cache = Inr (Dict r)"
    "wf_params r" "same_structure r base"
    using apply_proj_cycle_keeps [OF assms Suc.prems] by blast
  from Suc.IH [OF r(2,3)] show ?case by (simp add: r(1))
qed

lemma dict_comp_add:
  assumes "map fst b' = map fst q'" and "map (shape \<circ> snd) b' = map (shape \<circ> snd) q'"
    and "\<forall>kt\<in>set q'. map_of q (fst kt) = Some (snd kt)"
  shows "dict_comp (\<lambda>k v. and_then (getitem_obj (Dict q) k) (tensor_zip (+) v)) b'
       = Inr (params_add b' q')"
  using assms
proof (induction b' arbitrary: q')
  case Nil
  then show ?case by (simp add: params_add_def)
next
  case (Cons a b')
  then obtain g q'' where q': "q' = g # q''" by (cases q') auto
  obtain k v where a: "a = (k, v)" by (cases a)
  obtain k' t where g: "g = (k', t)" by (cases g)
  have kg: "k' = k" and sh: "shape v = shape t" using Cons.prems(1,2) q' a g by auto
  have look: "getitem_obj (Dict q) k = Inr t"
    using Cons.prems(3) q' g kg by (auto simp: getitem_obj_def getitem_def)
  have head: "and_then (getitem_obj (Dict q) k) (tensor_zip (+) v)
       = Inr \<lparr>shape = shape v, data = map2 (+) (data v) (data t)\<rparr>"
    using look sh by (simp add: and_then_Inr tensor_zip_def)
  have IH: "dict_comp (\<lambda>k v. and_then (getitem_obj (Dict q) k) (tensor_zip (+) v)) b'
       = Inr (params_add b' q'')"
    using Cons.prems q' by (intro Cons.IH) auto
  have rhs: "params_add (a # b') q'
       = (k, \<lparr>shape = shape v, data = map2 (+) (data v) (data t)\<rparr>) # params_add b' q''"
    by (simp add: params_add_def a q' g)
  have lhs: "dict_comp (\<lambda>k v. and_then (getitem_obj (Dict q) k) (tensor_zip (+) v)) (a # b')
       = Inr ((k, \<lparr>shape = shape v, data = map2 (+) (data v) (data t)\<rparr>) # params_add b' q'')"
    by (simp add: a head IH)
  show ?case by (simp only: lhs rhs)
qed

lemma structure_add:
  assumes "map fst b = map fst q"
  shows "same_structure (params_add b q) b"
proof -
  have len: "length b = length q" using assms by (rule map_eq_imp_length_eq)
  then show ?thesis
    by (auto simp: same_structure_def list_eq_iff_nth_eq params_add_def case_prod_unfold)
qed

lemma sample_add:
  assumes "wf_params q" and "same_structure q base"
  shows "dict_comp (\<lambda>k v. and_then (getitem_obj (Dict q) k) (tensor_zip (+) v)) base
       = Inr (params_add base q)
       \<and> same_structure (params_add base q) base"
proof -
  have k: "map fst base = map fst q" and s: "map (shape \<circ> snd) base = map (shape \<circ> snd) q"
    using assms(2) by (simp_all add: same_structure_def)
  have "distinct (map fst q)" using assms(1) by (simp add: wf_params_def)
  then have l: "\<forall>kt\<in>set q. map_of q (fst kt) = Some (snd kt)" by auto
  show ?thesis using dict_comp_add [OF k s l] structure_add [OF k] by simp
qed

lemma sampler_loop_closed:
  assumes "wf_params base" and "base \<noteq> []" and "accepts_tuple loss_fn" and "cache_fits dl cache"
  shows "list_all (\<lambda>s. same_structure s base
          \<and> list_all (\<lambda>kt. length (data (snd kt)) = numel (snd kt)) s) perts \<Longrightarrow>
     \<exists>new. sampler_loop loss_fn base n_cycle dl cache perts acc = Inr (acc @ new)
       \<and> list_all (\<lambda>s. same_structure s base) new
       \<and> list_all2 (\<lambda>pert s. \<exists>q. alternating_projection loss_fn base n_cycle (Dict pert) dl cache
                                     = Inr (Dict q) \<and> s = params_add base q) perts new"
proof (induction perts arbitrary: acc)
  case Nil
  then show ?case by simp
next
  case (Cons pert perts)
  have db: "distinct (map fst base)" using assms(1) by (simp add: wf_params_def)
  have ssp: "same_structure pert base" using Cons.prems by simp
  then have "map fst pert = map fst base" by (simp add: same_structure_def)
  then have wfp: "wf_params pert" using Cons.prems db by (simp add: wf_params_def)
  obtain q where q: "alternating_projection loss_fn base n_cycle (Dict pert) dl cache = Inr (Dict q)"
    "wf_params q" "same_structure q base"
    using cycle_loop_keeps [OF assms wfp ssp, of "nat n_cycle"]
    by (auto simp: alternating_projection_def)
  note add = sample_add [OF q(2,3)]
  have rest: "list_all (\<lambda>s. same_structure s base
          \<and> list_all (\<lambda>kt. length (data (snd kt)) = numel (snd kt)) s) perts"
    using Cons.prems by simp
  obtain new where new:
    "sampler_loop loss_fn base n_cycle dl cache perts (acc @ [params_add base q])
       = Inr ((acc @ [params_add base q]) @ new)"
    "list_all (\<lambda>s. same_structure s base) new"
    "list_all2 (\<lambda>pert s. \<exists>q. alternating_projection loss_fn base n_cycle (Dict pert) dl cache
                                     = Inr (Dict q) \<and> s = params_add base q) perts new"
    using Cons.IH [OF rest] by blast
  show ?case
    using q(1) add new by (intro exI [of _ "params_add base q # new"]) simp
qed

text \<open>
  With a cache in hand (loaded from the path or built and stored there) that fits the
  batches, the sampler does what the specification says: for \<open>n_samples = k \<ge> 0\<close>, base
  parameters that are not empty, a precision tensor and a loss that takes the 1-tuple as
  the dictionary, it returns exactly \<open>k\<close> parameter sets; each has the names and shapes of
  \<open>base_params\<close> and is \<open>base_params\<close> plus, entry by entry, the perturbation drawn for it
  after \<open>n_cycle\<close> cycles of alternating projection.
\<close>

lemma lpp_sampler_with_cache:
  assumes "0 \<le> n_samples" and "wf_params base" and "base \<noteq> []" and "accepts_tuple loss_fn"
    and "precompute_inv_jjt pinv loss_fn base dl path fs = (Inr cache, fs')"
    and "cache_fits dl cache"
  shows "\<exists>samples perts g'.
       lpp_sampler pinv n_samples n_cycle loss_fn base (Tensor0 prec) dl path fs g
         = (Inr samples, fs', g')
     \<and> randn_params base (Tensor0 prec) n_samples g = (Inr perts, g')
     \<and> int (length samples) = n_samples
     \<and> list_all (\<lambda>s. same_structure s base) samples
     \<and> list_all2 (\<lambda>pert s. \<exists>q. alternating_projection loss_fn base n_cycle (Dict pert) dl cache
                                   = Inr (Dict q) \<and> s = params_add base q) perts samples"
proof -
  obtain perts g' where p: "randn_params base (Tensor0 prec) n_samples g = (Inr perts, g')"
    "length perts = nat n_samples"
    "list_all (\<lambda>s. same_structure s base
          \<and> list_all (\<lambda>kt. length (data (snd kt)) = numel (snd kt)) s) perts"
    using randn_params_tensor [of base prec n_samples g] by blast
  obtain samples where s:
    "sampler_loop loss_fn base n_cycle dl cache perts [] = Inr ([] @ samples)"
    "list_all (\<lambda>s. same_structure s base) samples"
    "list_all2 (\<lambda>pert s. \<exists>q. alternating_projection loss_fn base n_cycle (Dict pert) dl cache
                                     = Inr (Dict q) \<and> s = params_add base q) perts samples"
    using sampler_loop_closed [OF assms(2,3,4,6) p(3)] by blast
  have "length samples = length perts" using s(3) by (simp add: list_all2_lengthD)
  then have len: "int (length samples) = n_samples" using p(2) assms(1) by simp
  have run: "lpp_sampler pinv n_samples n_cycle loss_fn base (Tensor0 prec) dl path fs g
         = (Inr samples, fs', g')"
    using s(1) by (simp add: lpp_sampler_def assms(5) p(1))
  show ?thesis using run p(1) len s(2,3) by blast
qed

lemma fresh_cache_fits:
  assumes "\<And>n m. square n m \<Longrightarrow> square n (pinv m)"
    and "list_all (\<lambda>(xb, yb). xb \<noteq> [] \<and> length xb = length yb) dl"
  shows "cache_fits dl (map (\<lambda>(xb, yb). pinv (gram (jacobian d base xb yb))) dl)"
proof -
  have "\<And>xb yb. length xb = length yb \<Longrightarrow> square (length xb) (pinv (gram (jacobian d base xb yb)))"
  proof -
    fix xb :: "'a list" and yb :: "'b list"
    assume "length xb = length yb"
    then have "length (jacobian d base xb yb) = length xb" by (simp add: length_jacobian)
    then have "square (length xb) (gram (jacobian d base xb yb))"
      using square_gram [of "jacobian d base xb yb"] by simp
    then show "square (length xb) (pinv (gram (jacobian d base xb yb)))" by (rule assms(1))
  qed
  then show ?thesis using assms(2)
    by (auto simp: cache_fits_def list_all_iff zip_map2 zip_same_conv_map)
qed

lemma lpp_sampler_example:
  "fst (lpp_sampler ex_pinv 1 1 ex_func ex_base (Tensor0 1) [([1], [2])] (Some ''c.pkl'') ex_fs_cached ex_rng)
     = Inr [[(''w'', \<lparr>shape = [2], data = [1 / 3, 5 / 3]\<rparr>), (''b'', \<lparr>shape = [1], data = [4 / 3]\<rparr>)]]"
  by (simp add: lpp_sampler_def precompute_inv_jjt_def path_exists_def pickle_load_def ex_fs_cached_def
      randn_params_def torch_sqrt_def randn_like_def ex_base_def ex_rng_def numel_def tensor_scale_def
      alternating_projection_def apply_proj_cycle_def list_index_def batched_proj_def jvp_def vjp_def
      matmul_def items_def grad_tensor_def ex_func_def ex_grad_def dot_def and_then_def getitem_def
      getitem_obj_def tensor_zip_def upt_rec)

text \<open>
  C5. The sampler does not return \<open>k\<close> parameter sets for every call: with the cache path
  left at its default \<open>None\<close> it raises \<open>TypeError\<close> in its first step, whatever \<open>n_samples\<close>
  is, and returns no list. (This is the defect of C4, met through \<open>lpp_sampler\<close>; with a
  cache in hand the sampler returns the \<open>k\<close> samples of the specification, as
  \<open>lpp_sampler_with_cache\<close> shows.)
\<close>

theorem lpp_sampler_default_path:
  "lpp_sampler pinv n_samples n_cycle loss_fn base iso_precision dl None fs g
     = (Inl TypeError, fs, g)"
  by (simp add: lpp_sampler_def precompute_inv_jjt_def)

theorem lpp_sampler_default_path_witness:
  "lpp_sampler ex_pinv 2 1 ex_func ex_base (Tensor0 1) [([1], [2])] None ex_fs ex_rng
     = (Inl TypeError, ex_fs, ex_rng)"
  using lpp_sampler_default_path [of ex_pinv 2 1 ex_func ex_base "Tensor0 1" "[([1], [2])]" ex_fs ex_rng]
  by simp

subsection \<open>The precision estimate\<close>

lemma randn_params_float: "randn_params tpl (PyFloat r) n g = (Inl TypeError, g)"
  by (simp add: randn_params_def torch_sqrt_def)

lemma items_of_list: "items (List ps) = Inl AttributeError"
  by (simp add: items_def)

lemma trace_loop_raises:
  "trace_loop func base dl n_cycle cache (Suc n) acc g = (Inl TypeError, g)"
  by (simp add: randn_params_float)

lemma estimate_precision_never_returns:
  assumes "0 < n_samples"
  shows "\<exists>e fs'. estimate_precision pinv func base dl n_samples n_cycle path fs g = (Inl e, fs', g)"
proof -
  obtain n where n: "nat n_samples = Suc n" using assms by (cases "nat n_samples") auto
  show ?thesis
  proof (cases "precompute_inv_jjt pinv func base dl path fs")
    case (Pair r fs')
    then show ?thesis
      by (cases r) (simp_all add: estimate_precision_def Let_def n trace_loop_raises del: trace_loop.simps)
  qed
qed

text \<open>
  C2. \<open>estimate_precision\<close> does not return the quotient the specification describes: with
  \<open>n_samples \<ge> 1\<close> the first trial calls \<open>randn_params\<close> with the float \<open>1.0\<close>, on which
  \<open>torch.sqrt\<close> raises \<open>TypeError\<close> (and the list returned by \<open>randn_params\<close> would next be
  passed where a dictionary is needed). Here on one parameter set, one batch, a cache on
  disk and one trial.
\<close>

theorem estimate_precision_raises:
  "estimate_precision ex_pinv ex_func ex_base [([1], [2])] 1 10 (Some ''c.pkl'') ex_fs_cached ex_rng
     = (Inl TypeError, ex_fs_cached, ex_rng)"
proof -
  have c: "precompute_inv_jjt ex_pinv ex_func ex_base [([1], [2])] (Some ''c.pkl'') ex_fs_cached
       = (Inr [[[1 / 6]]], ex_fs_cached)"
    by (simp add: precompute_inv_jjt_def path_exists_def pickle_load_def ex_fs_cached_def)
  have b: "ex_base \<noteq> []" by (simp add: ex_base_def)
  have n: "nat 1 = Suc 0" by simp
  show ?thesis
    by (simp add: estimate_precision_def Let_def b c n trace_loop_raises del: trace_loop.simps)
qed

end
